theory Spec2Isabelle
  imports Complex_Main "HOL-Library.Sublist" "HOL-Library.Log_Nat"
begin

section \<open>Python floats\<close>

text \<open>
  A Python \<^verbatim>\<open>float\<close> is an IEEE 754 double: a finite value, an infinity or NaN. A finite
  value is kept as the rational it denotes; the two zeros are one value, which no
  operation used here tells apart. The result of an arithmetic operation is the exact
  result rounded to the nearest double, ties to even, with gradual underflow below
  \<open>2\<^sup>-\<^sup>1\<^sup>0\<^sup>2\<^sup>2\<close> and overflow to an infinity from \<open>2\<^sup>1\<^sup>0\<^sup>2\<^sup>4\<close> on.
\<close>

datatype float = Finite rat | PosInf | NegInf | NaN

definition pow2 :: "int \<Rightarrow> rat" where
  "pow2 k = (if 0 \<le> k then 2 ^ nat k else 1 / 2 ^ nat (- k))"

text \<open>The exponent of a non-zero rational \<open>q\<close>: the integer \<open>e\<close> with \<open>2\<^sup>e \<le> |q| < 2\<^sup>e\<^sup>+\<^sup>1\<close>.\<close>

definition exponent :: "rat \<Rightarrow> int" where
  "exponent q =
     (case quotient_of \<bar>q\<bar> of
        (p, d) \<Rightarrow>
          let k = bitlen p - bitlen d
          in if pow2 k \<le> \<bar>q\<bar> then k else k - 1)"

definition round_half_even :: "rat \<Rightarrow> int" where
  "round_half_even x =
     (let f = \<lfloor>x\<rfloor>; d = x - of_int f
      in if d < 1 / 2 then f
         else if 1 / 2 < d then f + 1
         else if even f then f else f + 1)"

definition round_double :: "rat \<Rightarrow> float" where
  "round_double q =
     (if q = 0 then Finite 0
      else
        let e = max (exponent q) (- 1022);
            ulp = pow2 (e - 52);
            r = of_int (round_half_even (\<bar>q\<bar> / ulp)) * ulp
        in if 1024 \<le> exponent r then (if 0 < q then PosInf else NegInf)
           else Finite (sgn q * r))"

fun float_sub :: "float \<Rightarrow> float \<Rightarrow> float" where
  "float_sub NaN y = NaN"
| "float_sub x NaN = NaN"
| "float_sub (Finite a) (Finite b) = round_double (a - b)"
| "float_sub PosInf PosInf = NaN"
| "float_sub NegInf NegInf = NaN"
| "float_sub PosInf y = PosInf"
| "float_sub NegInf y = NegInf"
| "float_sub x PosInf = NegInf"
| "float_sub x NegInf = PosInf"

fun float_abs :: "float \<Rightarrow> float" where
  "float_abs NaN = NaN"
| "float_abs (Finite a) = Finite \<bar>a\<bar>"
| "float_abs PosInf = PosInf"
| "float_abs NegInf = PosInf"

text \<open>
  Float division. Python raises \<^verbatim>\<open>ZeroDivisionError\<close> on a zero divisor; the one division of
  the deduplicator comes after the test \<^verbatim>\<open>larger == 0\<close>, so its divisor is never zero, and
  \<open>float_div\<close> is given the value NaN there.
\<close>

fun float_div :: "float \<Rightarrow> float \<Rightarrow> float" where
  "float_div NaN y = NaN"
| "float_div x NaN = NaN"
| "float_div (Finite a) (Finite b) = (if b = 0 then NaN else round_double (a / b))"
| "float_div (Finite a) y = Finite 0"
| "float_div PosInf (Finite b) = (if b = 0 then NaN else if 0 < b then PosInf else NegInf)"
| "float_div NegInf (Finite b) = (if b = 0 then NaN else if 0 < b then NegInf else PosInf)"
| "float_div x y = NaN"

fun float_mul :: "float \<Rightarrow> float \<Rightarrow> float" where
  "float_mul NaN y = NaN"
| "float_mul x NaN = NaN"
| "float_mul (Finite a) (Finite b) = round_double (a * b)"
| "float_mul (Finite a) PosInf = (if a = 0 then NaN else if 0 < a then PosInf else NegInf)"
| "float_mul (Finite a) NegInf = (if a = 0 then NaN else if 0 < a then NegInf else PosInf)"
| "float_mul PosInf (Finite b) = (if b = 0 then NaN else if 0 < b then PosInf else NegInf)"
| "float_mul NegInf (Finite b) = (if b = 0 then NaN else if 0 < b then NegInf else PosInf)"
| "float_mul PosInf PosInf = PosInf"
| "float_mul NegInf NegInf = PosInf"
| "float_mul x y = NegInf"

text \<open>Comparisons: every comparison with NaN is false.\<close>

fun float_lt :: "float \<Rightarrow> float \<Rightarrow> bool" where
  "float_lt NaN y = False"
| "float_lt x NaN = False"
| "float_lt (Finite a) (Finite b) = (a < b)"
| "float_lt x NegInf = False"
| "float_lt NegInf y = True"
| "float_lt PosInf y = False"
| "float_lt x PosInf = True"

definition float_eq :: "float \<Rightarrow> float \<Rightarrow> bool" where
  "float_eq x y = (x \<noteq> NaN \<and> x = y)"

definition float_le :: "float \<Rightarrow> float \<Rightarrow> bool" where
  "float_le x y = (float_lt x y \<or> float_eq x y)"

text \<open>
  The builtins \<^verbatim>\<open>max(a, b)\<close> and \<^verbatim>\<open>min(a, b)\<close> keep the first argument unless the second is
  greater, respectively smaller.
\<close>

definition py_max :: "float \<Rightarrow> float \<Rightarrow> float" where
  "py_max a b = (if float_lt a b then b else a)"

definition py_min :: "float \<Rightarrow> float \<Rightarrow> float" where
  "py_min a b = (if float_lt b a then b else a)"

text \<open>True division of two integers: the exact quotient, rounded once.\<close>

definition int_true_div :: "nat \<Rightarrow> nat \<Rightarrow> float" where
  "int_true_div a b = round_double (of_nat a / of_nat b)"

section \<open>Data model (src/src/database/models.py)\<close>

text \<open>
  The rows of the three tables the deduplicator touches. Only the columns that
  \<^verbatim>\<open>deduplicator_v2.py\<close> and the \<^verbatim>\<open>DatabaseManager\<close> methods it calls read or write are
  kept. Nullable columns are options, \<^verbatim>\<open>Float\<close> columns hold Python floats. Strings are
  lists of 8-bit characters; case folding and white space are those of the ASCII range.
\<close>

record Company =
  id_company :: int
  name :: string

record FundingRound =
  id_round :: int
  company_id :: int
  round_name :: "string option"
  date :: "string option"
  amount_raised_usd :: "float option"
  pre_money_valuation_usd :: "float option"
  post_money_valuation_usd :: "float option"
  lead_investor :: "string option"
  confidence_score :: string
  is_duplicate :: bool
  duplicate_of_id :: "int option"

record ProcessingStatus =
  stage4_merged :: bool
  stage4_completed_at :: "int option"
  stage4_unique_rounds :: nat

text \<open>
  A session: the \<^verbatim>\<open>funding_rounds\<close> table in the order in which an unordered query returns
  its rows, the \<^verbatim>\<open>processing_status\<close> table keyed by its unique \<^verbatim>\<open>company_id\<close> column, and
  the \<^verbatim>\<open>companies\<close> table. The session is created with the default \<^verbatim>\<open>autoflush\<close>, so every
  query sees the pending writes of the same session.
\<close>

record session =
  funding_rounds :: "FundingRound list"
  processing_status :: "int \<rightharpoonup> ProcessingStatus"
  companies :: "Company list"

datatype error = AttributeError

section \<open>Configuration (DeduplicatorV2.__init__)\<close>

record dedup_config =
  cfg_date_proximity_days :: "int option"
  cfg_amount_similarity_threshold :: "float option"
  cfg_enable_fuzzy_matching :: "bool option"

record DeduplicatorV2 =
  date_proximity_days :: int
  amount_similarity_threshold :: float
  enable_fuzzy_matching :: bool

definition get_default :: "'a option \<Rightarrow> 'a \<Rightarrow> 'a" where
  "get_default v dflt = (case v of None \<Rightarrow> dflt | Some x \<Rightarrow> x)"

text \<open>
  The literal \<^verbatim>\<open>0.10\<close> is the double nearest to one tenth.
\<close>

definition init :: "dedup_config \<Rightarrow> DeduplicatorV2" where
  "init dedup_cfg =
     \<lparr> date_proximity_days = get_default (cfg_date_proximity_days dedup_cfg) 90,
       amount_similarity_threshold =
         get_default (cfg_amount_similarity_threshold dedup_cfg) (round_double (1 / 10)),
       enable_fuzzy_matching = get_default (cfg_enable_fuzzy_matching dedup_cfg) True \<rparr>"

definition default_config :: dedup_config where
  "default_config =
     \<lparr> cfg_date_proximity_days = None,
       cfg_amount_similarity_threshold = None,
       cfg_enable_fuzzy_matching = None \<rparr>"

section \<open>Dates (DeduplicatorV2.parse_date and datetime.strptime)\<close>

text \<open>
  \<^verbatim>\<open>datetime.strptime\<close> is standard-library code. It turns the format into a regular
  expression, one named group per directive, matches it at the start of the string with
  ordered alternatives and backtracking, raises \<^verbatim>\<open>ValueError\<close> when nothing matches or
  when the match does not reach the end of the string, and then builds the date, which
  raises \<^verbatim>\<open>ValueError\<close> for a date that does not exist. The three directives of the five
  formats are
  \<^verbatim>\<open>%Y = \d\d\d\d\<close>, \<^verbatim>\<open>%m = 1[0-2]|0[1-9]|[1-9]\<close> and
  \<^verbatim>\<open>%d = 3[0-1]|[1-2]\d|0[1-9]|[1-9]| [1-9]\<close>.
  An alternative is a list of character classes, a class the list of its characters.
\<close>

type_synonym alternative = "string list"

definition digit_class :: string where
  "digit_class = ''0123456789''"

definition nonzero_class :: string where
  "nonzero_class = ''123456789''"

fun directive_regex :: "char \<Rightarrow> alternative list" where
  "directive_regex c =
     (if c = CHR ''Y'' then [[digit_class, digit_class, digit_class, digit_class]]
      else if c = CHR ''m'' then [[''1'', ''012''], [''0'', nonzero_class], [nonzero_class]]
      else if c = CHR ''d'' then
        [[''3'', ''01''], [''12'', digit_class], [''0'', nonzero_class], [nonzero_class],
         ['' '', nonzero_class]]
      else [])"

datatype token = Directive char | Literal char

fun tokens :: "string \<Rightarrow> token list" where
  "tokens [] = []"
| "tokens [c] = [Literal c]"
| "tokens (c # e # rest) =
     (if c = CHR ''%'' then Directive e # tokens rest else Literal c # tokens (e # rest))"

fun match_alternative :: "alternative \<Rightarrow> string \<Rightarrow> (string \<times> string) option" where
  "match_alternative [] s = Some ([], s)"
| "match_alternative (cls # rest) [] = None"
| "match_alternative (cls # rest) (c # cs) =
     (if c \<in> set cls
      then (case match_alternative rest cs of
              None \<Rightarrow> None
            | Some (matched, remaining) \<Rightarrow> Some (c # matched, remaining))
      else None)"

text \<open>
  All the ways the expression matches a prefix of the string, in the order in which a
  backtracking matcher finds them: the groups and the unmatched rest.
\<close>

fun match_tokens :: "token list \<Rightarrow> string \<Rightarrow> ((char \<times> string) list \<times> string) list" where
  "match_tokens [] s = [([], s)]"
| "match_tokens (Literal c # ts) s =
     (case s of
        [] \<Rightarrow> []
      | x # xs \<Rightarrow> if x = c then match_tokens ts xs else [])"
| "match_tokens (Directive k # ts) s =
     concat (map (\<lambda>alt.
       case match_alternative alt s of
         None \<Rightarrow> []
       | Some (matched, remaining) \<Rightarrow>
           map (\<lambda>(groups, rest). ((k, matched) # groups, rest)) (match_tokens ts remaining))
       (directive_regex k))"

definition digit_value :: "char \<Rightarrow> int" where
  "digit_value c = of_char c - 48"

definition int_of_digits :: "string \<Rightarrow> int" where
  "int_of_digits s = foldl (\<lambda>acc c. 10 * acc + digit_value c) 0 (filter (\<lambda>c. c \<noteq> CHR '' '') s)"

record datetime =
  year :: int
  month :: int
  day :: int

definition is_leap :: "int \<Rightarrow> bool" where
  "is_leap y = (y mod 4 = 0 \<and> (y mod 100 \<noteq> 0 \<or> y mod 400 = 0))"

definition days_in_month :: "int \<Rightarrow> int \<Rightarrow> int" where
  "days_in_month y mo =
     (if mo = 2 \<and> is_leap y then 29
      else [31, 28, 31, 30, 31, 30, 31, 31, 30, 31, 30, 31] ! nat (mo - 1))"

definition days_before_year :: "int \<Rightarrow> int" where
  "days_before_year y =
     (let y1 = y - 1 in y1 * 365 + y1 div 4 - y1 div 100 + y1 div 400)"

definition days_before_month :: "int \<Rightarrow> int \<Rightarrow> int" where
  "days_before_month y mo =
     [0, 31, 59, 90, 120, 151, 181, 212, 243, 273, 304, 334] ! nat (mo - 1)
       + (if mo > 2 \<and> is_leap y then 1 else 0)"

definition toordinal :: "datetime \<Rightarrow> int" where
  "toordinal dt = days_before_year (year dt) + days_before_month (year dt) (month dt) + day dt"

definition group_or :: "(char \<times> string) list \<Rightarrow> char \<Rightarrow> int \<Rightarrow> int" where
  "group_or groups k dflt =
     (case map_of groups k of None \<Rightarrow> dflt | Some s \<Rightarrow> int_of_digits s)"

definition make_datetime :: "(char \<times> string) list \<Rightarrow> datetime option" where
  "make_datetime groups =
     (let y = group_or groups CHR ''Y'' 1900;
          mo = group_or groups CHR ''m'' 1;
          dd = group_or groups CHR ''d'' 1
      in if 1 \<le> y \<and> y \<le> 9999 \<and> 1 \<le> mo \<and> mo \<le> 12 \<and> 1 \<le> dd \<and> dd \<le> days_in_month y mo
         then Some \<lparr> year = y, month = mo, day = dd \<rparr>
         else None)"

definition strptime :: "string \<Rightarrow> string \<Rightarrow> datetime option" where
  "strptime date_string fmt =
     (case match_tokens (tokens fmt) date_string of
        [] \<Rightarrow> None
      | (groups, rest) # _ \<Rightarrow> if rest \<noteq> [] then None else make_datetime groups)"

definition formats :: "string list" where
  "formats = [''%Y-%m-%d'', ''%Y-%m'', ''%Y'', ''%m/%d/%Y'', ''%d/%m/%Y'']"

fun try_formats :: "string \<Rightarrow> string list \<Rightarrow> datetime option" where
  "try_formats date_str [] = None"
| "try_formats date_str (fmt # fmts) =
     (case strptime date_str fmt of
        Some dt \<Rightarrow> Some dt
      | None \<Rightarrow> try_formats date_str fmts)"

definition parse_date :: "string option \<Rightarrow> datetime option" where
  "parse_date date_str =
     (case date_str of
        None \<Rightarrow> None
      | Some s \<Rightarrow> if s = [] then None else try_formats s formats)"

definition dates_are_close :: "DeduplicatorV2 \<Rightarrow> string option \<Rightarrow> string option \<Rightarrow> bool" where
  "dates_are_close self date1 date2 =
     (case parse_date date1 of
        None \<Rightarrow> False
      | Some dt1 \<Rightarrow>
          (case parse_date date2 of
             None \<Rightarrow> False
           | Some dt2 \<Rightarrow> \<bar>toordinal dt1 - toordinal dt2\<bar> \<le> date_proximity_days self))"

section \<open>Amounts and round names\<close>

definition truthy_amount :: "float option \<Rightarrow> bool" where
  "truthy_amount a = (case a of None \<Rightarrow> False | Some x \<Rightarrow> x \<noteq> Finite 0)"

definition truthy_str :: "string option \<Rightarrow> bool" where
  "truthy_str s = (case s of None \<Rightarrow> False | Some x \<Rightarrow> x \<noteq> [])"

definition amounts_are_similar ::
  "DeduplicatorV2 \<Rightarrow> float option \<Rightarrow> float option \<Rightarrow> bool" where
  "amounts_are_similar self amount1 amount2 =
     (if \<not> truthy_amount amount1 \<or> \<not> truthy_amount amount2 then False
      else
        let larger = py_max (the amount1) (the amount2);
            smaller = py_min (the amount1) (the amount2)
        in if float_eq larger (Finite 0) then float_eq smaller (Finite 0)
           else
             let diff_percent = float_div (float_abs (float_sub larger smaller)) larger
             in float_le diff_percent (amount_similarity_threshold self))"

definition lower_char :: "char \<Rightarrow> char" where
  "lower_char c =
     (let n = of_char c :: nat in if 65 \<le> n \<and> n \<le> 90 then char_of (n + 32) else c)"

definition lower :: "string \<Rightarrow> string" where
  "lower s = map lower_char s"

definition is_space :: "char \<Rightarrow> bool" where
  "is_space c = (let n = of_char c :: nat in (9 \<le> n \<and> n \<le> 13) \<or> (28 \<le> n \<and> n \<le> 32))"

definition strip :: "string \<Rightarrow> string" where
  "strip s = rev (dropWhile is_space (rev (dropWhile is_space s)))"

fun contains :: "string \<Rightarrow> string \<Rightarrow> bool" where
  "contains keyword [] = (keyword = [])"
| "contains keyword (c # cs) = (prefix keyword (c # cs) \<or> contains keyword cs)"

definition series_keywords :: "string list" where
  "series_keywords =
     [''seed'', ''series a'', ''series b'', ''series c'', ''series d'',
      ''series e'', ''series f'', ''series g'', ''series h'']"

fun keyword_loop :: "string list \<Rightarrow> string \<Rightarrow> string \<Rightarrow> bool" where
  "keyword_loop [] name1_norm name2_norm = False"
| "keyword_loop (keyword # rest) name1_norm name2_norm =
     (if contains keyword name1_norm \<and> contains keyword name2_norm then True
      else keyword_loop rest name1_norm name2_norm)"

definition round_names_match :: "string option \<Rightarrow> string option \<Rightarrow> bool" where
  "round_names_match name1 name2 =
     (if \<not> truthy_str name1 \<or> \<not> truthy_str name2 then False
      else
        let name1_norm = strip (lower (the name1));
            name2_norm = strip (lower (the name2))
        in if name1_norm = name2_norm then True
           else keyword_loop series_keywords name1_norm name2_norm)"

section \<open>The pairwise predicate (DeduplicatorV2.are_duplicates)\<close>

definition are_duplicates :: "DeduplicatorV2 \<Rightarrow> FundingRound \<Rightarrow> FundingRound \<Rightarrow> bool" where
  "are_duplicates self round1 round2 =
     (if company_id round1 \<noteq> company_id round2 then False
      else if \<not> dates_are_close self (date round1) (date round2) then False
      else amounts_are_similar self (amount_raised_usd round1) (amount_raised_usd round2)
             \<or> round_names_match (round_name round1) (round_name round2))"

section \<open>Store operations (src/src/database/db_manager.py)\<close>

definition new_status :: ProcessingStatus where
  "new_status =
     \<lparr> stage4_merged = False, stage4_completed_at = None, stage4_unique_rounds = 0 \<rparr>"

text \<open>
  \<^verbatim>\<open>get_processing_status\<close> returns the company's status row and inserts one with the
  column defaults when there is none.
\<close>

definition get_processing_status :: "session \<Rightarrow> int \<Rightarrow> session \<times> ProcessingStatus" where
  "get_processing_status s cid =
     (case processing_status s cid of
        Some status \<Rightarrow> (s, status)
      | None \<Rightarrow> (s\<lparr>processing_status := (processing_status s)(cid \<mapsto> new_status)\<rparr>, new_status))"

text \<open>The argument \<open>now\<close> is the value \<^verbatim>\<open>datetime.utcnow()\<close> reads.\<close>

definition update_stage4_status :: "session \<Rightarrow> int \<Rightarrow> nat \<Rightarrow> bool \<Rightarrow> int \<Rightarrow> session" where
  "update_stage4_status s cid unique_rounds completed now =
     (case get_processing_status s cid of
        (s1, status) \<Rightarrow>
          s1\<lparr>processing_status := (processing_status s1)(cid \<mapsto>
                status\<lparr> stage4_merged := completed,
                        stage4_completed_at := (if completed then Some now else None),
                        stage4_unique_rounds := unique_rounds \<rparr>)\<rparr>)"

text \<open>
  \<^verbatim>\<open>mark_as_duplicate\<close> looks the round up by its primary key and writes the two
  deduplication columns when it is there. A primary key selects at most one row.
\<close>

definition mark_row :: "int \<Rightarrow> int \<Rightarrow> FundingRound \<Rightarrow> FundingRound" where
  "mark_row duplicate_round_id original_round_id r =
     (if id_round r = duplicate_round_id
      then r\<lparr>is_duplicate := True, duplicate_of_id := Some original_round_id\<rparr>
      else r)"

definition mark_as_duplicate :: "session \<Rightarrow> int \<Rightarrow> int \<Rightarrow> session" where
  "mark_as_duplicate s duplicate_round_id original_round_id =
     s\<lparr>funding_rounds := map (mark_row duplicate_round_id original_round_id) (funding_rounds s)\<rparr>"

section \<open>Deduplicating one company (DeduplicatorV2.deduplicate_company)\<close>

definition completeness :: "FundingRound \<Rightarrow> nat" where
  "completeness r =
     sum_list (map of_bool
       [truthy_amount (amount_raised_usd r),
        truthy_amount (pre_money_valuation_usd r),
        truthy_amount (post_money_valuation_usd r),
        truthy_str (lead_investor r)])"

text \<open>
  The body of the inner loop, on the session and the running count. The rows
  \<open>round1\<close> and \<open>round2\<close> are those loaded before the loops; the body reads none of the
  two columns that \<^verbatim>\<open>mark_as_duplicate\<close> writes.
\<close>

definition compare_pair ::
  "DeduplicatorV2 \<Rightarrow> FundingRound \<Rightarrow> FundingRound \<Rightarrow> session \<times> nat \<Rightarrow> session \<times> nat" where
  "compare_pair self round1 round2 acc =
     (case acc of (s, duplicates_found) \<Rightarrow>
        if are_duplicates self round1 round2 then
          if confidence_score round1 = ''HIGH'' \<and> confidence_score round2 \<noteq> ''HIGH'' then
            (mark_as_duplicate s (id_round round2) (id_round round1), duplicates_found + 1)
          else if confidence_score round2 = ''HIGH'' \<and> confidence_score round1 \<noteq> ''HIGH'' then
            (mark_as_duplicate s (id_round round1) (id_round round2), duplicates_found + 1)
          else if completeness round1 \<ge> completeness round2 then
            (mark_as_duplicate s (id_round round2) (id_round round1), duplicates_found + 1)
          else
            (mark_as_duplicate s (id_round round1) (id_round round2), duplicates_found + 1)
        else (s, duplicates_found))"

fun inner_loop ::
  "DeduplicatorV2 \<Rightarrow> FundingRound \<Rightarrow> FundingRound list \<Rightarrow> session \<times> nat \<Rightarrow> session \<times> nat" where
  "inner_loop self round1 [] acc = acc"
| "inner_loop self round1 (round2 # rest) acc =
     inner_loop self round1 rest (compare_pair self round1 round2 acc)"

fun outer_loop :: "DeduplicatorV2 \<Rightarrow> FundingRound list \<Rightarrow> session \<times> nat \<Rightarrow> session \<times> nat" where
  "outer_loop self [] acc = acc"
| "outer_loop self (round1 # rest) acc = outer_loop self rest (inner_loop self round1 rest acc)"

definition non_duplicate_rounds :: "session \<Rightarrow> int \<Rightarrow> FundingRound list" where
  "non_duplicate_rounds s cid =
     filter (\<lambda>r. company_id r = cid \<and> is_duplicate r = False) (funding_rounds s)"

definition deduplicate_company ::
  "DeduplicatorV2 \<Rightarrow> int \<Rightarrow> session \<Rightarrow> Company \<Rightarrow> session \<times> nat" where
  "deduplicate_company self now s company =
     (case get_processing_status s (id_company company) of
        (s1, status) \<Rightarrow>
          if stage4_merged status then (s1, 0)
          else
            let rounds = non_duplicate_rounds s1 (id_company company) in
            if length rounds \<le> 1
            then (update_stage4_status s1 (id_company company) (length rounds) True now, 0)
            else
              (case outer_loop self rounds (s1, 0) of
                 (s2, duplicates_found) \<Rightarrow>
                   let unique_rounds = length (non_duplicate_rounds s2 (id_company company))
                   in (update_stage4_status s2 (id_company company) unique_rounds True now,
                       duplicates_found)))"

section \<open>Deduplicating every company (DeduplicatorV2.deduplicate_all)\<close>

record stats =
  total_companies :: nat
  total_rounds :: nat
  unique_rounds :: nat
  duplicates_removed :: nat
  deduplication_rate :: float

text \<open>
  The loop over the distinct company ids, numbered from 1. The company is reached through
  the relationship of the first round of that id; when no company row has the id the
  relationship is \<^verbatim>\<open>None\<close> and reading its name raises. \<open>clock i\<close> is the time read while
  the \<open>i\<close>-th company is processed.
\<close>

fun company_loop ::
  "DeduplicatorV2 \<Rightarrow> (nat \<Rightarrow> int) \<Rightarrow> (nat \<times> int) list \<Rightarrow> session \<times> nat
     \<Rightarrow> error + session \<times> nat" where
  "company_loop self clock [] acc = Inr acc"
| "company_loop self clock ((i, cid) # rest) acc =
     (case acc of (s, total_duplicates) \<Rightarrow>
        (case find (\<lambda>c. id_company c = cid) (companies s) of
           None \<Rightarrow> Inl AttributeError
         | Some company \<Rightarrow>
             (case deduplicate_company self (clock i) s company of
                (s', duplicates) \<Rightarrow>
                  company_loop self clock rest (s', total_duplicates + duplicates))))"

definition distinct_company_ids :: "session \<Rightarrow> int list" where
  "distinct_company_ids s = remdups (map company_id (funding_rounds s))"

definition deduplicate_all ::
  "DeduplicatorV2 \<Rightarrow> (nat \<Rightarrow> int) \<Rightarrow> session \<Rightarrow> error + session \<times> stats" where
  "deduplicate_all self clock s =
     (let company_ids = distinct_company_ids s;
          n_companies = length company_ids
      in case company_loop self clock (zip [1 ..< n_companies + 1] company_ids) (s, 0) of
           Inl e \<Rightarrow> Inl e
         | Inr (s', total_duplicates) \<Rightarrow>
             let n_rounds = length (funding_rounds s');
                 n_unique = length (filter (\<lambda>r. is_duplicate r = False) (funding_rounds s'))
             in Inr (s',
                  \<lparr> total_companies = n_companies,
                    total_rounds = n_rounds,
                    unique_rounds = n_unique,
                    duplicates_removed = total_duplicates,
                    deduplication_rate =
                      (if n_rounds > 0
                       then float_mul (int_true_div total_duplicates n_rounds) (Finite 100)
                       else Finite 0) \<rparr>))"

section \<open>Example stores\<close>

text \<open>
  The end-to-end scenario of the specification: company Acme with a filing record of
  confidence HIGH and a search record of confidence MEDIUM, nine days apart.
\<close>

definition acme_company :: Company where
  "acme_company = \<lparr> id_company = 1, name = ''Acme'' \<rparr>"

definition acme_round1 :: FundingRound where
  "acme_round1 =
     \<lparr> id_round = 1, company_id = 1, round_name = Some ''Series A'',
       date = Some ''2021-05-01'', amount_raised_usd = Some (Finite 5000000),
       pre_money_valuation_usd = None, post_money_valuation_usd = None,
       lead_investor = None, confidence_score = ''HIGH'',
       is_duplicate = False, duplicate_of_id = None \<rparr>"

definition acme_round2 :: FundingRound where
  "acme_round2 =
     \<lparr> id_round = 2, company_id = 1, round_name = Some ''Series A'',
       date = Some ''2021-05-10'', amount_raised_usd = Some (Finite 5100000),
       pre_money_valuation_usd = None, post_money_valuation_usd = None,
       lead_investor = None, confidence_score = ''MEDIUM'',
       is_duplicate = False, duplicate_of_id = None \<rparr>"

definition acme :: session where
  "acme =
     \<lparr> funding_rounds = [acme_round1, acme_round2],
       processing_status = Map.empty,
       companies = [acme_company] \<rparr>"

text \<open>
  Company Gamma: rounds of one date, one label and one confidence tier that differ in the
  valuation and lead investor columns only, so any two of them are duplicates.
\<close>

definition gamma_company :: Company where
  "gamma_company = \<lparr> id_company = 7, name = ''Gamma'' \<rparr>"

definition gamma_round ::
  "int \<Rightarrow> float option \<Rightarrow> float option \<Rightarrow> string option \<Rightarrow> FundingRound" where
  "gamma_round i pre post lead =
     \<lparr> id_round = i, company_id = 7, round_name = Some ''Seed'',
       date = Some ''2020-03'', amount_raised_usd = Some (Finite 750000),
       pre_money_valuation_usd = pre, post_money_valuation_usd = post,
       lead_investor = lead, confidence_score = ''MEDIUM'',
       is_duplicate = False, duplicate_of_id = None \<rparr>"

definition gamma_store :: "FundingRound list \<Rightarrow> session" where
  "gamma_store rounds =
     \<lparr> funding_rounds = rounds, processing_status = Map.empty,
       companies = [gamma_company] \<rparr>"

text \<open>Completeness scores 2, 3, 1 in load order.\<close>

definition gamma :: session where
  "gamma =
     gamma_store
       [gamma_round 11 (Some (Finite 3000000)) None None,
        gamma_round 12 (Some (Finite 3000000)) (Some (Finite 3750000)) None,
        gamma_round 13 None None None]"

text \<open>Completeness scores 1, 3, 2 in load order.\<close>

definition gamma_chain :: session where
  "gamma_chain =
     gamma_store
       [gamma_round 11 None None None,
        gamma_round 12 (Some (Finite 3000000)) (Some (Finite 3750000)) None,
        gamma_round 13 (Some (Finite 3000000)) None None]"

definition clock0 :: "nat \<Rightarrow> int" where
  "clock0 i = 0"

section \<open>The duplicate predicate in the words of the specification\<close>






section \<open>The merge rule in the words of the specification\<close>

text \<open>The pairs the two loops visit, in the order in which they visit them.\<close>

fun pairs_in_order :: "'a list \<Rightarrow> ('a \<times> 'a) list" where
  "pairs_in_order [] = []"
| "pairs_in_order (a # rest) = map (Pair a) rest @ pairs_in_order rest"

definition exactly_one_high :: "FundingRound \<Rightarrow> FundingRound \<Rightarrow> bool" where
  "exactly_one_high A B = ((confidence_score A = ''HIGH'') \<noteq> (confidence_score B = ''HIGH''))"

text \<open>
  Whether the earlier record A of a duplicate pair survives: the record of tier HIGH when
  exactly one has it, otherwise the one of higher completeness score, A on a tie.
\<close>

definition first_survives :: "FundingRound \<Rightarrow> FundingRound \<Rightarrow> bool" where
  "first_survives A B =
     (if exactly_one_high A B then confidence_score A = ''HIGH''
      else completeness A \<ge> completeness B)"

definition spec_survivor :: "FundingRound \<Rightarrow> FundingRound \<Rightarrow> FundingRound" where
  "spec_survivor A B = (if first_survives A B then A else B)"

definition spec_demoted :: "FundingRound \<Rightarrow> FundingRound \<Rightarrow> FundingRound" where
  "spec_demoted A B = (if first_survives A B then B else A)"

definition demote :: "FundingRound \<Rightarrow> FundingRound \<Rightarrow> FundingRound \<Rightarrow> FundingRound" where
  "demote loser survivor r =
     (if id_round r = id_round loser
      then r\<lparr>is_duplicate := True, duplicate_of_id := Some (id_round survivor)\<rparr>
      else r)"

text \<open>
  What the specification asks of one pair (A, B), A the earlier record: when the pair is
  judged duplicate the loser is marked as a duplicate of the survivor and the count grows
  by one; otherwise nothing changes.
\<close>

definition merge_step ::
  "DeduplicatorV2 \<Rightarrow> session \<times> nat \<Rightarrow> FundingRound \<times> FundingRound \<Rightarrow> session \<times> nat" where
  "merge_step self acc pair =
     (if are_duplicates self (fst pair) (snd pair)
      then (mark_as_duplicate (fst acc) (id_round (spec_demoted (fst pair) (snd pair)))
              (id_round (spec_survivor (fst pair) (snd pair))),
            snd acc + 1)
      else acc)"

section \<open>Properties of the duplicate references\<close>

text \<open>
  Every duplicate of the company refers to a record of the same company that is not a
  duplicate: the reference graph has depth one.
\<close>

definition references_depth_one :: "session \<Rightarrow> int \<Rightarrow> bool" where
  "references_depth_one s cid =
     (\<forall>r \<in> set (funding_rounds s). company_id r = cid \<and> is_duplicate r \<longrightarrow>
        (\<exists>orig \<in> set (funding_rounds s).
           duplicate_of_id r = Some (id_round orig) \<and> company_id orig = cid
           \<and> \<not> is_duplicate orig))"

text \<open>
  The order in which the merge rule ranks the records loaded for a company: the tier HIGH
  before any other, then the higher completeness score, then the earlier position in load
  order. \<open>outranks rounds w l\<close> says that \<open>w\<close> comes strictly before \<open>l\<close> in it.
\<close>

definition tier :: "FundingRound \<Rightarrow> nat" where
  "tier r = (if confidence_score r = ''HIGH'' then 1 else 0)"

definition position :: "FundingRound list \<Rightarrow> int \<Rightarrow> nat" where
  "position rounds i = length (takeWhile (\<lambda>r. id_round r \<noteq> i) rounds)"

definition rank_key :: "FundingRound \<Rightarrow> nat \<times> nat \<times> int" where
  "rank_key r = (tier r, completeness r, id_round r)"

definition outranks :: "FundingRound list \<Rightarrow> FundingRound \<Rightarrow> FundingRound \<Rightarrow> bool" where
  "outranks rounds w l =
     (tier l < tier w
      \<or> (tier w = tier l
         \<and> (completeness l < completeness w
            \<or> (completeness w = completeness l
               \<and> position rounds (id_round w) < position rounds (id_round l)))))"

text \<open>
  Every duplicate of the company refers to a record of the same company that outranks it.
\<close>

definition references_outrank :: "session \<Rightarrow> FundingRound list \<Rightarrow> int \<Rightarrow> bool" where
  "references_outrank s rounds cid =
     (\<forall>r \<in> set (funding_rounds s). company_id r = cid \<and> is_duplicate r \<longrightarrow>
        (\<exists>orig \<in> set (funding_rounds s).
           duplicate_of_id r = Some (id_round orig) \<and> company_id orig = cid
           \<and> outranks rounds orig r))"

text \<open>
  Following the duplicate references from a record, at most \<open>n\<close> records long: the
  non-duplicate record the chain ends at, if it ends.
\<close>

fun follow :: "nat \<Rightarrow> FundingRound list \<Rightarrow> FundingRound \<Rightarrow> FundingRound option" where
  "follow 0 rows r = None"
| "follow (Suc n) rows r =
     (if \<not> is_duplicate r then Some r
      else
        (case duplicate_of_id r of
           None \<Rightarrow> None
         | Some i \<Rightarrow>
             (case find (\<lambda>orig. id_round orig = i) rows of
                None \<Rightarrow> None
              | Some orig \<Rightarrow> follow n rows orig)))"

definition original_of :: "session \<Rightarrow> FundingRound \<Rightarrow> FundingRound option" where
  "original_of s r = follow (length (funding_rounds s)) (funding_rounds s) r"

text \<open>
  From every record of the company the references lead to a non-duplicate record of the
  same company.
\<close>

definition chains_end :: "session \<Rightarrow> int \<Rightarrow> bool" where
  "chains_end s cid =
     (\<forall>r \<in> set (funding_rounds s). company_id r = cid \<longrightarrow>
        (\<exists>t \<in> set (funding_rounds s).
           original_of s r = Some t \<and> company_id t = cid \<and> \<not> is_duplicate t))"

section \<open>The sibling statistic (DatabaseManager.get\_statistics)\<close>

text \<open>
  \<^verbatim>\<open>get_statistics\<close> reports as \<^verbatim>\<open>duplicates_found\<close> the number of rounds whose
  \<open>is_duplicate\<close> is true; the pipeline logs it as the duplicates removed.
\<close>

definition duplicates_found_statistic :: "session \<Rightarrow> nat" where
  "duplicates_found_statistic s = length (filter (\<lambda>r. is_duplicate r = True) (funding_rounds s))"

section \<open>Two rounds, one with an amount that is not a number\<close>

definition nan_round1 :: FundingRound where
  "nan_round1 =
     \<lparr> id_round = 21, company_id = 3, round_name = Some ''Series A'',
       date = Some ''2022-06-01'', amount_raised_usd = Some (Finite 5000000),
       pre_money_valuation_usd = None, post_money_valuation_usd = None,
       lead_investor = None, confidence_score = ''MEDIUM'',
       is_duplicate = False, duplicate_of_id = None \<rparr>"

definition nan_round2 :: FundingRound where
  "nan_round2 =
     \<lparr> id_round = 22, company_id = 3, round_name = Some ''Series B'',
       date = Some ''2022-06-01'', amount_raised_usd = Some NaN,
       pre_money_valuation_usd = None, post_money_valuation_usd = None,
       lead_investor = None, confidence_score = ''MEDIUM'',
       is_duplicate = False, duplicate_of_id = None \<rparr>"

section \<open>The counts that deduplicate\_all adds up\<close>

text \<open>
  The values that the successive calls of \<^verbatim>\<open>deduplicate_company\<close> return, one per
  company, each call on the session the previous one left.
\<close>

fun per_company_counts ::
  "DeduplicatorV2 \<Rightarrow> (nat \<Rightarrow> int) \<Rightarrow> (nat \<times> int) list \<Rightarrow> session \<Rightarrow> nat list" where
  "per_company_counts self clock [] s = []"
| "per_company_counts self clock ((i, cid) # rest) s =
     (case find (\<lambda>c. id_company c = cid) (companies s) of
        None \<Rightarrow> []
      | Some company \<Rightarrow>
          (case deduplicate_company self (clock i) s company of
             (s', duplicates) \<Rightarrow> duplicates # per_company_counts self clock rest s'))"

definition numbered_company_ids :: "session \<Rightarrow> (nat \<times> int) list" where
  "numbered_company_ids s =
     zip [1 ..< length (distinct_company_ids s) + 1] (distinct_company_ids s)"

section \<open>Marking a round that is not in the store\<close>

lemma mark_as_duplicate_absent:
  assumes "\<forall>r \<in> set (funding_rounds s). id_round r \<noteq> round_id"
  shows "mark_as_duplicate s round_id original_round_id = s"
proof -
  have "map (mark_row round_id original_round_id) (funding_rounds s) = funding_rounds s"
    using assms by (intro map_idI) (simp add: mark_row_def)
  then show ?thesis by (simp add: mark_as_duplicate_def)
qed

text \<open>
  Claim C10. When no funding round of the store has the given \<open>round_id\<close>,
  \<^verbatim>\<open>mark_as_duplicate\<close> returns normally and the session is the one it was given: no
  round's \<open>is_duplicate\<close> or \<open>duplicate_of_id\<close> changes.
\<close>

theorem mark_as_duplicate_missing_round:
  assumes "\<forall>r \<in> set (funding_rounds s). id_round r \<noteq> round_id"
  shows "mark_as_duplicate s round_id original_round_id = s
    \<and> map is_duplicate (funding_rounds (mark_as_duplicate s round_id original_round_id))
        = map is_duplicate (funding_rounds s)
    \<and> map duplicate_of_id (funding_rounds (mark_as_duplicate s round_id original_round_id))
        = map duplicate_of_id (funding_rounds s)"
  using mark_as_duplicate_absent [OF assms] by simp

theorem mark_as_duplicate_missing_round_witness:
  "mark_as_duplicate acme 3 1 = acme"
proof -
  have "\<forall>r \<in> set (funding_rounds acme). id_round r \<noteq> 3"
    by (simp add: acme_def acme_round1_def acme_round2_def)
  from mark_as_duplicate_missing_round [OF this] show ?thesis by simp
qed

section \<open>The order of the two arguments\<close>

lemma keyword_loop_commute: "keyword_loop ks a b = keyword_loop ks b a"
  by (induction ks) auto

lemma dates_are_close_commute: "dates_are_close self d1 d2 = dates_are_close self d2 d1"
proof (cases "parse_date d1")
  case None
  then show ?thesis by (simp add: dates_are_close_def split: option.split)
next
  case (Some t1)
  show ?thesis
  proof (cases "parse_date d2")
    case None
    then show ?thesis by (simp add: dates_are_close_def split: option.split)
  next
    case (Some t2)
    have "\<bar>toordinal t1 - toordinal t2\<bar> = \<bar>toordinal t2 - toordinal t1\<bar>" by arith
    with Some \<open>parse_date d1 = Some t1\<close> show ?thesis by (simp add: dates_are_close_def)
  qed
qed

lemma round_names_match_commute: "round_names_match n1 n2 = round_names_match n2 n1"
proof -
  have k: "keyword_loop series_keywords (strip (lower (the n1))) (strip (lower (the n2)))
    = keyword_loop series_keywords (strip (lower (the n2))) (strip (lower (the n1)))"
    by (rule keyword_loop_commute)
  show ?thesis unfolding round_names_match_def Let_def k by auto
qed

lemma are_duplicates_other_company:
  "company_id A \<noteq> company_id B \<Longrightarrow> are_duplicates self A B = False"
  by (simp add: are_duplicates_def)

lemma py_max_commute: "x \<noteq> NaN \<Longrightarrow> y \<noteq> NaN \<Longrightarrow> py_max x y = py_max y x"
  by (cases x; cases y) (auto simp: py_max_def)

lemma py_min_commute: "x \<noteq> NaN \<Longrightarrow> y \<noteq> NaN \<Longrightarrow> py_min x y = py_min y x"
  by (cases x; cases y) (auto simp: py_min_def)

text \<open>Amount similarity does not depend on the order when neither amount is NaN.\<close>

lemma amounts_are_similar_commute:
  assumes "a1 \<noteq> Some NaN" and "a2 \<noteq> Some NaN"
  shows "amounts_are_similar self a1 a2 = amounts_are_similar self a2 a1"
proof (cases "truthy_amount a1 \<and> truthy_amount a2")
  case True
  then obtain x y where xy: "a1 = Some x" "a2 = Some y"
    by (cases a1; cases a2) (simp_all add: truthy_amount_def)
  with assms have "x \<noteq> NaN" "y \<noteq> NaN" by simp_all
  then have "py_max x y = py_max y x" "py_min x y = py_min y x"
    by (simp_all add: py_max_commute py_min_commute)
  with xy True show ?thesis by (simp add: amounts_are_similar_def)
next
  case False
  then show ?thesis by (auto simp: amounts_are_similar_def)
qed

lemma are_duplicates_commute:
  assumes "amount_raised_usd A \<noteq> Some NaN" and "amount_raised_usd B \<noteq> Some NaN"
  shows "are_duplicates self A B = are_duplicates self B A"
proof (cases "company_id A = company_id B")
  case True
  then have "company_id B = company_id A" by simp
  with True show ?thesis
    unfolding are_duplicates_def
    by (simp only: dates_are_close_commute [of self "date A" "date B"]
        amounts_are_similar_commute [OF assms, of self]
        round_names_match_commute [of "round_name A" "round_name B"])
next
  case False
  then have "company_id B \<noteq> company_id A" by simp
  with False show ?thesis
    using are_duplicates_other_company [of A B self] are_duplicates_other_company [of B A self]
    by simp
qed

text \<open>
  Claim C8. The claim is that \<^verbatim>\<open>are_duplicates(A, B)\<close> equals \<^verbatim>\<open>are_duplicates(B, A)\<close> for
  all records of one company. Date proximity and round-name matching are symmetric, and so
  is amount similarity when neither amount is NaN, but \<^verbatim>\<open>max\<close> and \<^verbatim>\<open>min\<close> keep their first
  argument when the other is NaN. For two rounds of one company and one date, labelled
  Series A and Series B, with amounts 5,000,000 and NaN, the predicate is true in one order
  and false in the other.
\<close>

theorem are_duplicates_order_dependent:
  "company_id nan_round1 = company_id nan_round2
   \<and> are_duplicates (init default_config) nan_round1 nan_round2
   \<and> \<not> are_duplicates (init default_config) nan_round2 nan_round1
   \<and> amounts_are_similar (init default_config) (Some (Finite 5000000)) (Some NaN)
   \<and> \<not> amounts_are_similar (init default_config) (Some NaN) (Some (Finite 5000000))
   \<and> dates_are_close self d1 d2 = dates_are_close self d2 d1
   \<and> round_names_match n1 n2 = round_names_match n2 n1"
proof -
  have "company_id nan_round1 = company_id nan_round2
   \<and> are_duplicates (init default_config) nan_round1 nan_round2
   \<and> \<not> are_duplicates (init default_config) nan_round2 nan_round1
   \<and> amounts_are_similar (init default_config) (Some (Finite 5000000)) (Some NaN)
   \<and> \<not> amounts_are_similar (init default_config) (Some NaN) (Some (Finite 5000000))"
    by code_simp
  then show ?thesis
    using dates_are_close_commute [of self d1 d2] round_names_match_commute [of n1 n2]
    by blast
qed

theorem are_duplicates_order_dependent_witness:
  "are_duplicates (init default_config) nan_round1 nan_round2
     \<noteq> are_duplicates (init default_config) nan_round2 nan_round1"
  using are_duplicates_order_dependent [of "init default_config" None None None None] by blast

section \<open>The reserved flag\<close>

lemma dates_are_close_cong:
  assumes "date_proximity_days d1 = date_proximity_days d2"
  shows "dates_are_close d1 = dates_are_close d2"
  by (intro ext) (simp only: dates_are_close_def assms)

lemma amounts_are_similar_cong:
  assumes "amount_similarity_threshold d1 = amount_similarity_threshold d2"
  shows "amounts_are_similar d1 = amounts_are_similar d2"
  by (intro ext) (simp only: amounts_are_similar_def assms)

lemma are_duplicates_cong:
  assumes "date_proximity_days d1 = date_proximity_days d2"
    and "amount_similarity_threshold d1 = amount_similarity_threshold d2"
  shows "are_duplicates d1 = are_duplicates d2"
  by (intro ext)
    (simp only: are_duplicates_def dates_are_close_cong [OF assms(1)]
      amounts_are_similar_cong [OF assms(2)])

lemma compare_pair_cong:
  assumes "are_duplicates d1 = are_duplicates d2"
  shows "compare_pair d1 = compare_pair d2"
  by (intro ext) (simp only: compare_pair_def assms)

lemma inner_loop_cong:
  assumes "compare_pair d1 = compare_pair d2"
  shows "inner_loop d1 a rest acc = inner_loop d2 a rest acc"
proof (induction rest arbitrary: acc)
  case Nil
  show ?case by (simp only: inner_loop.simps)
next
  case (Cons b rest)
  show ?case by (simp only: inner_loop.simps assms Cons.IH)
qed

lemma outer_loop_cong:
  assumes "compare_pair d1 = compare_pair d2"
  shows "outer_loop d1 rounds acc = outer_loop d2 rounds acc"
proof (induction rounds arbitrary: acc)
  case Nil
  show ?case by (simp only: outer_loop.simps)
next
  case (Cons a rest)
  show ?case by (simp only: outer_loop.simps inner_loop_cong [OF assms] Cons.IH)
qed

lemma deduplicate_company_cong:
  assumes "date_proximity_days d1 = date_proximity_days d2"
    and "amount_similarity_threshold d1 = amount_similarity_threshold d2"
  shows "deduplicate_company d1 now s c = deduplicate_company d2 now s c"
proof -
  have "compare_pair d1 = compare_pair d2"
    using assms by (intro compare_pair_cong are_duplicates_cong)
  then have "outer_loop d1 = outer_loop d2"
    by (intro ext) (rule outer_loop_cong)
  then show ?thesis by (simp only: deduplicate_company_def)
qed

text \<open>
  Claim C9. The flag \<^verbatim>\<open>enable_fuzzy_matching\<close> is read at initialisation, and two
  configurations that agree on the two thresholds (whatever their flags) give the same
  result of \<^verbatim>\<open>are_duplicates\<close> on every pair and the same final session and return value
  of \<^verbatim>\<open>deduplicate_company\<close>.
\<close>

theorem enable_fuzzy_matching_no_op:
  assumes "cfg_date_proximity_days c1 = cfg_date_proximity_days c2"
    and "cfg_amount_similarity_threshold c1 = cfg_amount_similarity_threshold c2"
  shows "are_duplicates (init c1) A B = are_duplicates (init c2) A B
    \<and> deduplicate_company (init c1) now s company = deduplicate_company (init c2) now s company
    \<and> enable_fuzzy_matching (init c1) = get_default (cfg_enable_fuzzy_matching c1) True"
proof -
  have d: "date_proximity_days (init c1) = date_proximity_days (init c2)"
    and a: "amount_similarity_threshold (init c1) = amount_similarity_threshold (init c2)"
    using assms by (simp_all add: init_def)
  have "are_duplicates (init c1) A B = are_duplicates (init c2) A B"
    by (simp only: are_duplicates_cong [OF d a])
  moreover have "deduplicate_company (init c1) now s company
      = deduplicate_company (init c2) now s company"
    by (rule deduplicate_company_cong [OF d a])
  moreover have "enable_fuzzy_matching (init c1) = get_default (cfg_enable_fuzzy_matching c1) True"
    by (simp add: init_def)
  ultimately show ?thesis by (intro conjI)
qed

theorem enable_fuzzy_matching_no_op_witness:
  "are_duplicates (init (default_config\<lparr>cfg_enable_fuzzy_matching := Some False\<rparr>))
       acme_round1 acme_round2
   \<and> deduplicate_company (init (default_config\<lparr>cfg_enable_fuzzy_matching := Some False\<rparr>))
       0 acme acme_company
     = deduplicate_company (init default_config) 0 acme acme_company
   \<and> enable_fuzzy_matching (init (default_config\<lparr>cfg_enable_fuzzy_matching := Some False\<rparr>))
     = False"
proof -
  let ?c = "default_config\<lparr>cfg_enable_fuzzy_matching := Some False\<rparr>"
  have d: "cfg_date_proximity_days ?c = cfg_date_proximity_days default_config"
    and a: "cfg_amount_similarity_threshold ?c = cfg_amount_similarity_threshold default_config"
    by simp_all
  have "are_duplicates (init default_config) acme_round1 acme_round2" by code_simp
  with enable_fuzzy_matching_no_op [OF d a, of acme_round1 acme_round2 0 acme acme_company]
  show ?thesis by (simp add: get_default_def)
qed

section \<open>The predicate and its description\<close>













section \<open>The default thresholds at their boundaries\<close>

lemma dates_are_close_default:
  assumes "parse_date d1 = Some t1" and "parse_date d2 = Some t2"
  shows "dates_are_close (init default_config) d1 d2 = (\<bar>toordinal t1 - toordinal t2\<bar> \<le> 90)"
  using assms by (simp add: dates_are_close_def init_def default_config_def get_default_def)

lemma py_max_finite: "py_max (Finite x) (Finite y) = Finite (max x y)"
  by (simp add: py_max_def max_def)

lemma py_min_finite: "py_min (Finite x) (Finite y) = Finite (min x y)"
  by (simp add: py_min_def min_def)

lemma amounts_are_similar_default:
  assumes "x \<noteq> 0" and "y \<noteq> 0"
  shows "amounts_are_similar (init default_config) (Some (Finite x)) (Some (Finite y))
    = float_le
        (float_div (float_abs (float_sub (Finite (max x y)) (Finite (min x y))))
           (Finite (max x y)))
        (round_double (1 / 10))"
proof -
  have "max x y \<noteq> 0" using assms by (simp add: max_def)
  with assms show ?thesis
    by (simp add: amounts_are_similar_def truthy_amount_def py_max_finite py_min_finite
        float_eq_def init_def default_config_def get_default_def Let_def
        del: float_sub.simps float_div.simps)
qed

text \<open>
  Claim C7. With the default thresholds, two parseable dates exactly 90 days apart are
  close and two dates 91 days apart are not; the amounts 1,000,000 and 1,095,000 are
  similar and 1,000,000 and 1,150,000 are not; the relative difference of two non-zero
  amounts is taken against the larger one and compared with the threshold 0.10
  inclusively, in float arithmetic.
\<close>

theorem default_threshold_boundaries:
  assumes "parse_date d1 = Some t1" and "parse_date d2 = Some t2"
    and "x \<noteq> 0" and "y \<noteq> 0"
  shows "(\<bar>toordinal t1 - toordinal t2\<bar> = 90 \<longrightarrow> dates_are_close (init default_config) d1 d2)
    \<and> (\<bar>toordinal t1 - toordinal t2\<bar> = 91 \<longrightarrow> \<not> dates_are_close (init default_config) d1 d2)
    \<and> amounts_are_similar (init default_config) (Some (Finite 1000000)) (Some (Finite 1095000))
    \<and> \<not> amounts_are_similar (init default_config) (Some (Finite 1000000))
          (Some (Finite 1150000))
    \<and> amounts_are_similar (init default_config) (Some (Finite x)) (Some (Finite y))
        = float_le
            (float_div (float_abs (float_sub (Finite (max x y)) (Finite (min x y))))
               (Finite (max x y)))
            (round_double (1 / 10))"
proof -
  have "amounts_are_similar (init default_config) (Some (Finite 1000000))
      (Some (Finite 1095000))"
    by code_simp
  moreover have "\<not> amounts_are_similar (init default_config) (Some (Finite 1000000))
      (Some (Finite 1150000))"
    by code_simp
  moreover note dates_are_close_default [OF assms(1,2)] amounts_are_similar_default [OF assms(3,4)]
  ultimately show ?thesis by simp
qed

theorem default_threshold_boundaries_witness:
  "dates_are_close (init default_config) (Some ''2021-01-01'') (Some ''2021-04-01'')
   \<and> \<not> dates_are_close (init default_config) (Some ''2021-01-01'') (Some ''2021-04-02'')
   \<and> amounts_are_similar (init default_config) (Some (Finite 900)) (Some (Finite 1000))"
proof -
  have p1: "parse_date (Some ''2021-01-01'') = Some \<lparr>year = 2021, month = 1, day = 1\<rparr>"
    by code_simp
  have p2: "parse_date (Some ''2021-04-01'') = Some \<lparr>year = 2021, month = 4, day = 1\<rparr>"
    by code_simp
  have p3: "parse_date (Some ''2021-04-02'') = Some \<lparr>year = 2021, month = 4, day = 2\<rparr>"
    by code_simp
  have o1: "toordinal \<lparr>year = 2021, month = 1, day = 1\<rparr> = 737791" by code_simp
  have o2: "toordinal \<lparr>year = 2021, month = 4, day = 1\<rparr> = 737881" by code_simp
  have o3: "toordinal \<lparr>year = 2021, month = 4, day = 2\<rparr> = 737882" by code_simp
  have nz: "(900::rat) \<noteq> 0" "(1000::rat) \<noteq> 0" by simp_all
  have v: "float_le
      (float_div (float_abs (float_sub (Finite (max 900 1000)) (Finite (min 900 1000))))
         (Finite (max 900 1000)))
      (round_double (1 / 10))" by code_simp
  note a = default_threshold_boundaries [OF p1 p2 nz]
  note b = default_threshold_boundaries [OF p1 p3 nz]
  have "dates_are_close (init default_config) (Some ''2021-01-01'') (Some ''2021-04-01'')"
    using a [THEN conjunct1] by (simp add: o1 o2)
  moreover have "\<not> dates_are_close (init default_config) (Some ''2021-01-01'')
      (Some ''2021-04-02'')"
    using b [THEN conjunct2, THEN conjunct1] by (simp add: o1 o3)
  moreover have "amounts_are_similar (init default_config) (Some (Finite 900))
      (Some (Finite 1000))"
    using a [THEN conjunct2, THEN conjunct2, THEN conjunct2, THEN conjunct2] v by (simp only:)
  ultimately show ?thesis by (intro conjI)
qed

text \<open>
  The comparison is one of doubles: for 9000000000000009 and 8100000000000008 the exact
  relative difference exceeds one tenth, and its double does not exceed the double 0.10.
\<close>

lemma rounding_at_the_threshold:
  "amounts_are_similar (init default_config) (Some (Finite 9000000000000009))
     (Some (Finite 8100000000000008))
   \<and> (1 / 10 :: rat) < \<bar>9000000000000009 - 8100000000000008\<bar> / 9000000000000009"
  by code_simp

section \<open>One step of the loops\<close>

lemma inner_loop_foldl:
  "inner_loop self a rest acc = foldl (\<lambda>acc (x, y). compare_pair self x y acc) acc (map (Pair a) rest)"
  by (induction rest arbitrary: acc) simp_all

lemma outer_loop_foldl:
  "outer_loop self rounds acc
     = foldl (\<lambda>acc (x, y). compare_pair self x y acc) acc (pairs_in_order rounds)"
  by (induction rounds arbitrary: acc) (simp_all add: inner_loop_foldl)

lemma compare_pair_duplicates:
  assumes "are_duplicates self A B"
  shows "compare_pair self A B (s, n)
    = (mark_as_duplicate s (id_round (spec_demoted A B)) (id_round (spec_survivor A B)), n + 1)"
proof -
  let ?ha = "confidence_score A = ''HIGH''" and ?hb = "confidence_score B = ''HIGH''"
  consider (a) "?ha" "\<not> ?hb" | (b) "?hb" "\<not> ?ha"
    | (c) "?ha = ?hb" "completeness B \<le> completeness A"
    | (d) "?ha = ?hb" "\<not> completeness B \<le> completeness A"
    by blast
  then show ?thesis
  proof cases
    case a
    then have "first_survives A B" by (simp add: first_survives_def exactly_one_high_def)
    with a assms show ?thesis
      by (simp add: compare_pair_def spec_demoted_def spec_survivor_def)
  next
    case b
    then have "\<not> first_survives A B" by (simp add: first_survives_def exactly_one_high_def)
    with b assms show ?thesis
      by (simp add: compare_pair_def spec_demoted_def spec_survivor_def)
  next
    case c
    then have "first_survives A B" by (simp add: first_survives_def exactly_one_high_def)
    with c assms show ?thesis
      by (simp add: compare_pair_def spec_demoted_def spec_survivor_def)
  next
    case d
    then have "\<not> first_survives A B" by (simp add: first_survives_def exactly_one_high_def)
    with d assms show ?thesis
      by (simp add: compare_pair_def spec_demoted_def spec_survivor_def)
  qed
qed

lemma compare_pair_not_duplicates:
  assumes "\<not> are_duplicates self A B"
  shows "compare_pair self A B acc = acc"
  using assms by (cases acc) (simp add: compare_pair_def)

lemma mark_as_duplicate_rows:
  "funding_rounds (mark_as_duplicate s (id_round loser) (id_round survivor))
     = map (demote loser survivor) (funding_rounds s)"
proof -
  have "mark_row (id_round loser) (id_round survivor) = demote loser survivor"
    by (intro ext) (simp add: mark_row_def demote_def)
  then show ?thesis by (simp add: mark_as_duplicate_def)
qed

lemma completeness_count:
  "completeness r =
     (if amount_raised_usd r \<noteq> None \<and> amount_raised_usd r \<noteq> Some (Finite 0) then 1 else 0)
     + (if pre_money_valuation_usd r \<noteq> None \<and> pre_money_valuation_usd r \<noteq> Some (Finite 0) then 1 else 0)
     + (if post_money_valuation_usd r \<noteq> None \<and> post_money_valuation_usd r \<noteq> Some (Finite 0) then 1 else 0)
     + (if lead_investor r \<noteq> None \<and> lead_investor r \<noteq> Some [] then 1 else 0)"
  by (auto simp: completeness_def truthy_amount_def truthy_str_def split: option.splits)

lemma compare_pair_eq:
  "compare_pair self a b (s, n) =
     (if are_duplicates self a b
      then (mark_as_duplicate s (id_round (spec_demoted a b)) (id_round (spec_survivor a b)),
            n + 1)
      else (s, n))"
  by (simp add: compare_pair_duplicates compare_pair_not_duplicates)

lemma merge_step_compare_pair: "merge_step self (s, n) (A, B) = compare_pair self A B (s, n)"
  by (simp add: merge_step_def compare_pair_eq)

lemma foldl_merge_step:
  "foldl (\<lambda>acc (x, y). compare_pair self x y acc) acc ps = foldl (merge_step self) acc ps"
proof (induction ps arbitrary: acc)
  case Nil
  show ?case by simp
next
  case (Cons p ps)
  have "compare_pair self (fst p) (snd p) acc = merge_step self acc p"
    by (cases acc; cases p) (simp add: merge_step_compare_pair)
  then show ?case using Cons.IH by (simp add: case_prod_beta)
qed

lemma survivor_of_high:
  assumes "exactly_one_high A B"
  shows "confidence_score (spec_survivor A B) = ''HIGH''
    \<and> confidence_score (spec_demoted A B) \<noteq> ''HIGH''"
proof (cases "confidence_score A = ''HIGH''")
  case True
  with assms have "confidence_score B \<noteq> ''HIGH''" by (simp add: exactly_one_high_def)
  with True assms show ?thesis
    by (simp add: spec_survivor_def spec_demoted_def first_survives_def)
next
  case False
  with assms have "confidence_score B = ''HIGH''" by (simp add: exactly_one_high_def)
  with False assms show ?thesis
    by (simp add: spec_survivor_def spec_demoted_def first_survives_def)
qed

lemma survivor_of_equal_tier:
  assumes "\<not> exactly_one_high A B"
  shows "spec_survivor A B = (if completeness A < completeness B then B else A)
    \<and> spec_demoted A B = (if completeness A < completeness B then A else B)"
  using assms by (simp add: spec_survivor_def spec_demoted_def first_survives_def not_less)

section \<open>Repeating the deduplication of a company\<close>

lemma get_processing_status_present:
  assumes "processing_status s cid = Some st"
  shows "get_processing_status s cid = (s, st)"
  using assms by (simp add: get_processing_status_def)

lemma update_stage4_status_flag:
  "\<exists>st. processing_status (update_stage4_status s cid u True now) cid = Some st
     \<and> stage4_merged st"
  by (simp add: update_stage4_status_def get_processing_status_def split: option.split)

lemma deduplicate_company_sets_flag:
  assumes "deduplicate_company self now s company = (s1, n)"
  shows "\<exists>st. processing_status s1 (id_company company) = Some st \<and> stage4_merged st"
proof (cases "\<exists>st. processing_status s (id_company company) = Some st \<and> stage4_merged st")
  case True
  then obtain st where st: "processing_status s (id_company company) = Some st"
    "stage4_merged st" by blast
  from assms have "s1 = s"
    by (simp add: deduplicate_company_def get_processing_status_present [OF st(1)] st(2))
  with st show ?thesis by blast
next
  case False
  obtain sa status where g: "get_processing_status s (id_company company) = (sa, status)"
    by (cases "get_processing_status s (id_company company)")
  from False g have nm: "\<not> stage4_merged status"
    by (auto simp: get_processing_status_def new_status_def split: option.splits)
  show ?thesis
  proof (cases "length (non_duplicate_rounds sa (id_company company)) \<le> 1")
    case True
    with assms g nm have "s1 = update_stage4_status sa (id_company company)
        (length (non_duplicate_rounds sa (id_company company))) True now"
      by (simp add: deduplicate_company_def Let_def)
    then show ?thesis by (simp only: update_stage4_status_flag)
  next
    case long: False
    obtain s2 found where o: "outer_loop self (non_duplicate_rounds sa (id_company company))
        (sa, 0) = (s2, found)"
      by (cases "outer_loop self (non_duplicate_rounds sa (id_company company)) (sa, 0)")
    with assms g nm long have "s1 = update_stage4_status s2 (id_company company)
        (length (non_duplicate_rounds s2 (id_company company))) True now"
      by (simp add: deduplicate_company_def Let_def)
    then show ?thesis by (simp only: update_stage4_status_flag)
  qed
qed

lemma deduplicate_company_merged:
  assumes "processing_status s (id_company company) = Some st" and "stage4_merged st"
  shows "deduplicate_company self now s company = (s, 0)"
  using assms by (simp add: deduplicate_company_def get_processing_status_present)

text \<open>
  Claim C3. After a completed call of \<^verbatim>\<open>deduplicate_company\<close> the company's stage flag is
  set, so a second call (with any thresholds, at any time) returns 0 and leaves the session
  as the first call left it: in particular every record keeps its \<open>is_duplicate\<close> and its
  \<open>duplicate_of_id\<close>.
\<close>

theorem deduplicate_company_idempotent:
  assumes "deduplicate_company self now s company = (s1, n)"
  shows "deduplicate_company self' now' s1 company = (s1, 0)
    \<and> map is_duplicate (funding_rounds (fst (deduplicate_company self' now' s1 company)))
        = map is_duplicate (funding_rounds s1)
    \<and> map duplicate_of_id (funding_rounds (fst (deduplicate_company self' now' s1 company)))
        = map duplicate_of_id (funding_rounds s1)"
proof -
  from deduplicate_company_sets_flag [OF assms]
  obtain st where "processing_status s1 (id_company company) = Some st" "stage4_merged st"
    by blast
  then have "deduplicate_company self' now' s1 company = (s1, 0)"
    by (rule deduplicate_company_merged)
  then show ?thesis by simp
qed

theorem deduplicate_company_idempotent_witness:
  "snd (deduplicate_company (init default_config) 0 acme acme_company) = 1
   \<and> deduplicate_company (init default_config) 5
        (fst (deduplicate_company (init default_config) 0 acme acme_company)) acme_company
     = (fst (deduplicate_company (init default_config) 0 acme acme_company), 0)"
proof -
  have "snd (deduplicate_company (init default_config) 0 acme acme_company) = 1"
    by code_simp
  moreover have "deduplicate_company (init default_config) 0 acme acme_company
    = (fst (deduplicate_company (init default_config) 0 acme acme_company),
       snd (deduplicate_company (init default_config) 0 acme acme_company))" by simp
  from deduplicate_company_idempotent [OF this, of "init default_config" 5]
  have "deduplicate_company (init default_config) 5
        (fst (deduplicate_company (init default_config) 0 acme acme_company)) acme_company
     = (fst (deduplicate_company (init default_config) 0 acme acme_company), 0)" by blast
  ultimately show ?thesis by (intro conjI)
qed

section \<open>What the loops keep\<close>


lemma demoted_survivor_cases:
  "(spec_demoted a b = a \<and> spec_survivor a b = b) \<or> (spec_demoted a b = b \<and> spec_survivor a b = a)"
  by (simp add: spec_demoted_def spec_survivor_def)

lemma foldl_compare_pair_invariant:
  assumes step: "\<And>s a b. Q s \<Longrightarrow> (a, b) \<in> set ps \<Longrightarrow>
      Q (mark_as_duplicate s (id_round a) (id_round b))
      \<and> Q (mark_as_duplicate s (id_round b) (id_round a))"
    and start: "Q s"
  shows "Q (fst (foldl (\<lambda>acc (x, y). compare_pair self x y acc) (s, n) ps))"
  using assms
proof (induction ps arbitrary: s n)
  case Nil
  then show ?case by simp
next
  case (Cons p ps)
  obtain a b where p: "p = (a, b)" by (cases p)
  obtain s' n' where c: "compare_pair self a b (s, n) = (s', n')"
    by (cases "compare_pair self a b (s, n)")
  have "(a, b) \<in> set (p # ps)" using p by simp
  from Cons.prems(1) [OF Cons.prems(2) this]
  have m: "Q (mark_as_duplicate s (id_round a) (id_round b))"
    "Q (mark_as_duplicate s (id_round b) (id_round a))" by simp_all
  have "Q s'"
  proof (cases "are_duplicates self a b")
    case True
    with c have "s' = mark_as_duplicate s (id_round (spec_demoted a b))
        (id_round (spec_survivor a b))"
      by (simp add: compare_pair_eq)
    with m demoted_survivor_cases [of a b] show ?thesis by auto
  next
    case False
    with c Cons.prems(2) show ?thesis by (simp add: compare_pair_eq)
  qed
  moreover have "\<And>s a b. Q s \<Longrightarrow> (a, b) \<in> set ps \<Longrightarrow>
      Q (mark_as_duplicate s (id_round a) (id_round b))
      \<and> Q (mark_as_duplicate s (id_round b) (id_round a))"
    using Cons.prems(1) by simp
  ultimately have "Q (fst (foldl (\<lambda>acc (x, y). compare_pair self x y acc) (s', n') ps))"
    using Cons.IH by blast
  with p c show ?case by simp
qed

lemma outer_loop_invariant:
  assumes "\<And>s a b. Q s \<Longrightarrow> (a, b) \<in> set (pairs_in_order rounds) \<Longrightarrow>
      Q (mark_as_duplicate s (id_round a) (id_round b))
      \<and> Q (mark_as_duplicate s (id_round b) (id_round a))"
    and "Q s"
  shows "Q (fst (outer_loop self rounds (s, n)))"
  unfolding outer_loop_foldl using assms by (rule foldl_compare_pair_invariant)

lemma pairs_in_order_members:
  assumes "(a, b) \<in> set (pairs_in_order rounds)"
  shows "a \<in> set rounds \<and> b \<in> set rounds"
  using assms by (induction rounds) auto

lemma pairs_in_order_distinct:
  assumes "(a, b) \<in> set (pairs_in_order rounds)" and "distinct (map f rounds)"
  shows "f a \<noteq> f b"
  using assms
proof (induction rounds)
  case Nil
  then show ?case by simp
next
  case (Cons r rounds)
  from Cons.prems(1) consider "a = r" "b \<in> set rounds" | "(a, b) \<in> set (pairs_in_order rounds)"
    by auto
  then show ?case
  proof cases
    case 1
    with Cons.prems(2) show ?thesis by auto
  next
    case 2
    with Cons show ?thesis by simp
  qed
qed

lemma mark_as_duplicate_other_tables:
  "companies (mark_as_duplicate s l w) = companies s"
  "processing_status (mark_as_duplicate s l w) = processing_status s"
  "length (funding_rounds (mark_as_duplicate s l w)) = length (funding_rounds s)"
  by (simp_all add: mark_as_duplicate_def)

lemma mark_row_keys:
  "id_round (mark_row l w r) = id_round r" "company_id (mark_row l w r) = company_id r"
  by (simp_all add: mark_row_def)

lemma mark_as_duplicate_keys:
  "map (\<lambda>r. (id_round r, company_id r)) (funding_rounds (mark_as_duplicate s l w))
     = map (\<lambda>r. (id_round r, company_id r)) (funding_rounds s)"
  by (simp add: mark_as_duplicate_def mark_row_keys comp_def)

lemma get_processing_status_rounds:
  "funding_rounds (fst (get_processing_status s cid)) = funding_rounds s"
  "companies (fst (get_processing_status s cid)) = companies s"
  by (simp_all add: get_processing_status_def split: option.split)

lemma update_stage4_status_rounds:
  "funding_rounds (update_stage4_status s cid u c now) = funding_rounds s"
  "companies (update_stage4_status s cid u c now) = companies s"
  by (simp_all add: update_stage4_status_def get_processing_status_def split: option.split)

text \<open>The three ways a call of \<^verbatim>\<open>deduplicate_company\<close> ends.\<close>

lemma deduplicate_company_cases:
  obtains (skipped) st where "processing_status s (id_company company) = Some st"
      "stage4_merged st" "deduplicate_company self now s company = (s, 0)"
    | (short) s1 where "funding_rounds s1 = funding_rounds s" "companies s1 = companies s"
      "length (non_duplicate_rounds s (id_company company)) \<le> 1"
      "deduplicate_company self now s company
        = (update_stage4_status s1 (id_company company)
             (length (non_duplicate_rounds s (id_company company))) True now, 0)"
    | (compared) s1 s2 found where "funding_rounds s1 = funding_rounds s"
      "companies s1 = companies s"
      "\<not> length (non_duplicate_rounds s (id_company company)) \<le> 1"
      "\<forall>st. processing_status s (id_company company) = Some st \<longrightarrow> \<not> stage4_merged st"
      "outer_loop self (non_duplicate_rounds s (id_company company)) (s1, 0) = (s2, found)"
      "deduplicate_company self now s company
        = (update_stage4_status s2 (id_company company)
             (length (non_duplicate_rounds s2 (id_company company))) True now, found)"
      "s1 = fst (get_processing_status s (id_company company))"
proof -
  let ?cid = "id_company company"
  obtain s1 status where g: "get_processing_status s ?cid = (s1, status)"
    by (cases "get_processing_status s ?cid")
  have r1: "funding_rounds s1 = funding_rounds s" "companies s1 = companies s"
    using get_processing_status_rounds [of s ?cid] g by simp_all
  then have nd: "non_duplicate_rounds s1 ?cid = non_duplicate_rounds s ?cid"
    by (simp add: non_duplicate_rounds_def)
  show thesis
  proof (cases "stage4_merged status")
    case True
    with g obtain st where st: "processing_status s ?cid = Some st" "stage4_merged st"
      by (auto simp: get_processing_status_def new_status_def split: option.splits)
    then have "deduplicate_company self now s company = (s, 0)"
      by (rule deduplicate_company_merged)
    with st show thesis by (rule skipped)
  next
    case nm: False
    with g have nm': "\<forall>st. processing_status s ?cid = Some st \<longrightarrow> \<not> stage4_merged st"
      by (auto simp: get_processing_status_def split: option.splits)
    show thesis
    proof (cases "length (non_duplicate_rounds s ?cid) \<le> 1")
      case True
      with g nm nd have "deduplicate_company self now s company
        = (update_stage4_status s1 ?cid (length (non_duplicate_rounds s ?cid)) True now, 0)"
        by (simp add: deduplicate_company_def Let_def)
      with r1 True show thesis by (rule short)
    next
      case False
      obtain s2 found where o: "outer_loop self (non_duplicate_rounds s ?cid) (s1, 0) = (s2, found)"
        by (cases "outer_loop self (non_duplicate_rounds s ?cid) (s1, 0)")
      with g nm nd False have "deduplicate_company self now s company
        = (update_stage4_status s2 ?cid (length (non_duplicate_rounds s2 ?cid)) True now, found)"
        by (simp add: deduplicate_company_def Let_def)
      moreover have "s1 = fst (get_processing_status s ?cid)" using g by simp
      ultimately show thesis using r1 False nm' o by (intro compared)
    qed
  qed
qed

section \<open>The merge rule\<close>

lemma deduplicate_company_run:
  assumes nm: "\<forall>st. processing_status s (id_company company) = Some st \<longrightarrow> \<not> stage4_merged st"
    and long: "1 < length (non_duplicate_rounds s (id_company company))"
  shows "deduplicate_company self now s company =
      (case foldl (merge_step self) (fst (get_processing_status s (id_company company)), 0)
              (pairs_in_order (non_duplicate_rounds s (id_company company))) of
         (s2, found) \<Rightarrow>
           (update_stage4_status s2 (id_company company)
              (length (non_duplicate_rounds s2 (id_company company))) True now, found))"
proof (cases rule: deduplicate_company_cases [of s company self now])
  case (skipped st)
  with nm show ?thesis by simp
next
  case (short s1)
  with long show ?thesis by simp
next
  case (compared s1 s2 found)
  from compared(5) have "foldl (merge_step self) (s1, 0)
      (pairs_in_order (non_duplicate_rounds s (id_company company))) = (s2, found)"
    by (simp only: outer_loop_foldl foldl_merge_step)
  with compared(6,7) show ?thesis by simp
qed

text \<open>
  Claim C2. When the stage is not yet complete and more than one record is loaded,
  \<^verbatim>\<open>deduplicate_company\<close> applies the merge step to every pair of the loaded records in
  iteration order, the earlier record A first, then records the stage. On a pair judged
  duplicate the record of tier HIGH survives when exactly one has that tier, whatever the
  completeness scores; otherwise the record of higher completeness score (the number of
  non-falsy fields among amount raised, pre-money valuation, post-money valuation and lead
  investor) survives, A on a tie. The other record is demoted: its \<open>is_duplicate\<close> becomes
  true and its \<open>duplicate_of_id\<close> the id of the survivor, and the count of duplicates grows
  by one.
\<close>

theorem merge_rule:
  assumes "\<forall>st. processing_status s (id_company company) = Some st \<longrightarrow> \<not> stage4_merged st"
    and "1 < length (non_duplicate_rounds s (id_company company))"
    and "are_duplicates self A B"
  shows "deduplicate_company self now s company =
      (case foldl (merge_step self) (fst (get_processing_status s (id_company company)), 0)
              (pairs_in_order (non_duplicate_rounds s (id_company company))) of
         (s2, found) \<Rightarrow>
           (update_stage4_status s2 (id_company company)
              (length (non_duplicate_rounds s2 (id_company company))) True now, found))
    \<and> merge_step self (s', n) (A, B)
      = (mark_as_duplicate s' (id_round (spec_demoted A B)) (id_round (spec_survivor A B)), n + 1)
    \<and> compare_pair self A B (s', n) = merge_step self (s', n) (A, B)
    \<and> funding_rounds (fst (compare_pair self A B (s', n)))
      = map (demote (spec_demoted A B) (spec_survivor A B)) (funding_rounds s')
    \<and> outer_loop self rounds acc
      = foldl (\<lambda>acc (x, y). compare_pair self x y acc) acc (pairs_in_order rounds)
    \<and> (exactly_one_high A B \<longrightarrow>
         confidence_score (spec_survivor A B) = ''HIGH''
         \<and> confidence_score (spec_demoted A B) \<noteq> ''HIGH'')
    \<and> (\<not> exactly_one_high A B \<longrightarrow>
         spec_survivor A B = (if completeness A < completeness B then B else A)
         \<and> spec_demoted A B = (if completeness A < completeness B then A else B))
    \<and> completeness A =
        (if amount_raised_usd A \<noteq> None \<and> amount_raised_usd A \<noteq> Some (Finite 0) then 1 else 0)
        + (if pre_money_valuation_usd A \<noteq> None
              \<and> pre_money_valuation_usd A \<noteq> Some (Finite 0) then 1 else 0)
        + (if post_money_valuation_usd A \<noteq> None
              \<and> post_money_valuation_usd A \<noteq> Some (Finite 0) then 1 else 0)
        + (if lead_investor A \<noteq> None \<and> lead_investor A \<noteq> Some [] then 1 else 0)"
proof -
  note c = compare_pair_duplicates [OF assms(3), of s' n]
  have m: "merge_step self (s', n) (A, B)
      = (mark_as_duplicate s' (id_round (spec_demoted A B)) (id_round (spec_survivor A B)), n + 1)"
    by (simp only: merge_step_compare_pair c)
  have e: "compare_pair self A B (s', n) = merge_step self (s', n) (A, B)"
    by (simp only: merge_step_compare_pair)
  have r: "funding_rounds (fst (compare_pair self A B (s', n)))
      = map (demote (spec_demoted A B) (spec_survivor A B)) (funding_rounds s')"
    by (simp only: c fst_conv mark_as_duplicate_rows)
  have h: "exactly_one_high A B \<longrightarrow>
         confidence_score (spec_survivor A B) = ''HIGH''
         \<and> confidence_score (spec_demoted A B) \<noteq> ''HIGH''"
    using survivor_of_high [of A B] by blast
  have q: "\<not> exactly_one_high A B \<longrightarrow>
         spec_survivor A B = (if completeness A < completeness B then B else A)
         \<and> spec_demoted A B = (if completeness A < completeness B then A else B)"
    using survivor_of_equal_tier [of A B] by blast
  from deduplicate_company_run [OF assms(1,2), of self now] m e r
    outer_loop_foldl [of self rounds acc] h q completeness_count [of A]
  show ?thesis by (intro conjI)
qed

theorem merge_rule_witness:
  "map (\<lambda>r. (id_round r, is_duplicate r, duplicate_of_id r))
     (funding_rounds (fst (deduplicate_company (init default_config) 0 acme acme_company)))
   = [(1, False, None), (2, True, Some 1)]
   \<and> snd (deduplicate_company (init default_config) 0 acme acme_company) = 1"
proof -
  have nm: "\<forall>st. processing_status acme (id_company acme_company) = Some st
      \<longrightarrow> \<not> stage4_merged st"
    by (simp add: acme_def)
  have long: "1 < length (non_duplicate_rounds acme (id_company acme_company))"
    by (simp add: non_duplicate_rounds_def acme_def acme_round1_def acme_round2_def
        acme_company_def)
  have d: "are_duplicates (init default_config) acme_round1 acme_round2" by code_simp
  let ?run = "case foldl (merge_step (init default_config))
        (fst (get_processing_status acme (id_company acme_company)), 0)
        (pairs_in_order (non_duplicate_rounds acme (id_company acme_company))) of
      (s2, found) \<Rightarrow>
        (update_stage4_status s2 (id_company acme_company)
           (length (non_duplicate_rounds s2 (id_company acme_company))) True 0, found)"
  have v: "map (\<lambda>r. (id_round r, is_duplicate r, duplicate_of_id r)) (funding_rounds (fst ?run))
      = [(1, False, None), (2, True, Some 1)] \<and> snd ?run = 1"
    by code_simp
  from merge_rule [OF nm long d, of 0, THEN conjunct1]
  have "deduplicate_company (init default_config) 0 acme acme_company = ?run" .
  with v show ?thesis by (simp only:)
qed

section \<open>The references left by a run\<close>

lemma foldl_merge_step_invariant:
  assumes step: "\<And>s a b. Q s \<Longrightarrow> (a, b) \<in> set ps \<Longrightarrow> are_duplicates self a b \<Longrightarrow>
      Q (mark_as_duplicate s (id_round (spec_demoted a b)) (id_round (spec_survivor a b)))"
    and start: "Q s"
  shows "Q (fst (foldl (merge_step self) (s, n) ps))"
  using assms
proof (induction ps arbitrary: s n)
  case Nil
  then show ?case by simp
next
  case (Cons p ps)
  obtain a b where p: "p = (a, b)" by (cases p)
  obtain s' n' where c: "merge_step self (s, n) (a, b) = (s', n')"
    by (cases "merge_step self (s, n) (a, b)")
  have "Q s'"
  proof (cases "are_duplicates self a b")
    case True
    have "(a, b) \<in> set (p # ps)" using p by simp
    from Cons.prems(1) [OF Cons.prems(2) this True] c True show ?thesis
      by (simp add: merge_step_def)
  next
    case False
    with c Cons.prems(2) show ?thesis by (simp add: merge_step_def)
  qed
  moreover have "\<And>s a b. Q s \<Longrightarrow> (a, b) \<in> set ps \<Longrightarrow> are_duplicates self a b \<Longrightarrow>
      Q (mark_as_duplicate s (id_round (spec_demoted a b)) (id_round (spec_survivor a b)))"
    using Cons.prems(1) by simp
  ultimately have "Q (fst (foldl (merge_step self) (s', n') ps))"
    using Cons.IH by blast
  with p c show ?case by simp
qed

lemma tier_high: "(confidence_score r = ''HIGH'') = (tier r = 1)"
  by (simp add: tier_def)

lemma tier_cases: "tier r = 0 \<or> tier r = 1"
  by (simp add: tier_def)

lemma survivor_outranks:
  assumes "position rounds (id_round a) < position rounds (id_round b)"
  shows "outranks rounds (spec_survivor a b) (spec_demoted a b)"
proof (cases "exactly_one_high a b")
  case True
  from survivor_of_high [OF True]
  have "tier (spec_survivor a b) = 1" "tier (spec_demoted a b) \<noteq> 1"
    by (simp_all add: tier_high)
  with tier_cases [of "spec_demoted a b"] show ?thesis by (auto simp: outranks_def)
next
  case False
  then have t: "tier a = tier b"
    using tier_cases [of a] tier_cases [of b] by (auto simp: exactly_one_high_def tier_high)
  show ?thesis
  proof (cases "completeness a < completeness b")
    case True
    with survivor_of_equal_tier [OF False] t show ?thesis by (simp add: outranks_def)
  next
    case c: False
    with survivor_of_equal_tier [OF False] t assms show ?thesis
      by (auto simp: outranks_def)
  qed
qed

lemma position_Cons:
  "position (r # rounds) i = (if id_round r = i then 0 else Suc (position rounds i))"
  by (simp add: position_def)

lemma pairs_in_order_position:
  assumes "(a, b) \<in> set (pairs_in_order rounds)" and "distinct (map id_round rounds)"
  shows "position rounds (id_round a) < position rounds (id_round b)"
  using assms
proof (induction rounds)
  case Nil
  then show ?case by simp
next
  case (Cons r rounds)
  from Cons.prems(1) consider "a = r" "b \<in> set rounds" | "(a, b) \<in> set (pairs_in_order rounds)"
    by auto
  then show ?case
  proof cases
    case 1
    with Cons.prems(2) have "id_round r \<noteq> id_round b" by auto
    with 1 show ?thesis by (simp add: position_Cons)
  next
    case 2
    then have "a \<in> set rounds" "b \<in> set rounds"
      using pairs_in_order_members [OF 2] by simp_all
    with Cons.prems(2) have "id_round r \<noteq> id_round a" "id_round r \<noteq> id_round b" by auto
    moreover from 2 Cons have "position rounds (id_round a) < position rounds (id_round b)"
      by simp
    ultimately show ?thesis by (simp add: position_Cons)
  qed
qed

lemma outranks_irreflexive: "\<not> outranks rounds r r"
  by (simp add: outranks_def)

lemma outranks_transitive:
  assumes "outranks rounds a b" and "outranks rounds b c"
  shows "outranks rounds a c"
  using assms unfolding outranks_def by linarith

lemma outranks_cong:
  assumes "rank_key w' = rank_key w" and "rank_key l' = rank_key l"
  shows "outranks rounds w' l' = outranks rounds w l"
  using assms by (simp add: outranks_def rank_key_def)

lemma mark_row_rank_key: "rank_key (mark_row l w r) = rank_key r"
  by (simp add: rank_key_def tier_def completeness_def mark_row_def)

lemma mark_as_duplicate_rank_keys:
  "map (\<lambda>r. (company_id r, rank_key r)) (funding_rounds (mark_as_duplicate s l w))
     = map (\<lambda>r. (company_id r, rank_key r)) (funding_rounds s)"
  by (simp add: mark_as_duplicate_def mark_row_rank_key mark_row_keys comp_def)

text \<open>A row of the current table has the columns of the loaded row of the same id.\<close>

lemma same_id_same_key:
  assumes keys: "map (\<lambda>r. (company_id r, rank_key r)) rows
      = map (\<lambda>r. (company_id r, rank_key r)) rows0"
    and d: "distinct (map id_round rows0)"
    and r: "r \<in> set rows" and l: "l \<in> set rows0" and i: "id_round r = id_round l"
  shows "rank_key r = rank_key l \<and> company_id r = company_id l"
proof -
  from r have "(company_id r, rank_key r) \<in> set (map (\<lambda>r. (company_id r, rank_key r)) rows)"
    by force
  with keys have "(company_id r, rank_key r)
      \<in> set (map (\<lambda>r. (company_id r, rank_key r)) rows0)" by simp
  then obtain r0 where r0: "r0 \<in> set rows0" "company_id r0 = company_id r"
    "rank_key r0 = rank_key r" by auto
  from r0(3) have "id_round r0 = id_round r" by (simp add: rank_key_def)
  with i have "id_round r0 = id_round l" by simp
  moreover from d have "inj_on id_round (set rows0)" by (simp add: distinct_map)
  ultimately have "r0 = l" using r0(1) l by (simp add: inj_on_def)
  with r0 show ?thesis by simp
qed

lemma loaded_row_present:
  assumes keys: "map (\<lambda>r. (company_id r, rank_key r)) rows
      = map (\<lambda>r. (company_id r, rank_key r)) rows0"
    and w: "w \<in> set rows0"
  shows "\<exists>x \<in> set rows. rank_key x = rank_key w \<and> company_id x = company_id w"
proof -
  from w have "(company_id w, rank_key w) \<in> set (map (\<lambda>r. (company_id r, rank_key r)) rows0)"
    by force
  with keys have "(company_id w, rank_key w)
      \<in> set (map (\<lambda>r. (company_id r, rank_key r)) rows)" by simp
  then show ?thesis by auto
qed

lemma references_outrank_mark:
  assumes ref: "references_outrank s rounds cid"
    and keys: "map (\<lambda>r. (company_id r, rank_key r)) (funding_rounds s)
      = map (\<lambda>r. (company_id r, rank_key r)) rows0"
    and d: "distinct (map id_round rows0)"
    and l: "l \<in> set rows0" and w: "w \<in> set rows0" and c: "company_id w = cid"
    and o: "outranks rounds w l"
  shows "references_outrank (mark_as_duplicate s (id_round l) (id_round w)) rounds cid"
  unfolding references_outrank_def
proof (intro ballI impI)
  let ?s' = "mark_as_duplicate s (id_round l) (id_round w)"
  let ?m = "mark_row (id_round l) (id_round w)"
  fix r'
  assume r': "r' \<in> set (funding_rounds ?s')"
    and cr: "company_id r' = cid \<and> is_duplicate r'"
  from r' obtain r where r: "r \<in> set (funding_rounds s)" "r' = ?m r"
    by (auto simp: mark_as_duplicate_def)
  have keep: "\<And>x. x \<in> set (funding_rounds s) \<Longrightarrow> ?m x \<in> set (funding_rounds ?s')"
    by (simp add: mark_as_duplicate_def)
  show "\<exists>orig \<in> set (funding_rounds ?s').
      duplicate_of_id r' = Some (id_round orig) \<and> company_id orig = cid
      \<and> outranks rounds orig r'"
  proof (cases "id_round r = id_round l")
    case True
    from loaded_row_present [OF keys w]
    obtain x where x: "x \<in> set (funding_rounds s)" "rank_key x = rank_key w"
      "company_id x = company_id w" by blast
    from x(2) have ix: "id_round x = id_round w" by (simp add: rank_key_def)
    from same_id_same_key [OF keys d r(1) l True]
    have kr: "rank_key r = rank_key l" by simp
    have "duplicate_of_id r' = Some (id_round (?m x))"
      using r(2) True ix by (simp add: mark_row_def)
    moreover have "company_id (?m x) = cid" using x(3) c by (simp add: mark_row_keys)
    moreover have "outranks rounds (?m x) r'"
      using o outranks_cong [of "?m x" w "?m r" l rounds] x(2) kr r(2)
      by (simp add: mark_row_rank_key)
    ultimately show ?thesis using keep [OF x(1)] by blast
  next
    case False
    then have same: "r' = r" using r(2) by (simp add: mark_row_def)
    with cr r(1) ref obtain orig where og: "orig \<in> set (funding_rounds s)"
      "duplicate_of_id r = Some (id_round orig)" "company_id orig = cid"
      "outranks rounds orig r"
      unfolding references_outrank_def by blast
    have "duplicate_of_id r' = Some (id_round (?m orig))"
      using og(2) same by (simp add: mark_row_keys)
    moreover have "company_id (?m orig) = cid" using og(3) by (simp add: mark_row_keys)
    moreover have "outranks rounds (?m orig) r'"
      using og(4) same outranks_cong [of "?m orig" orig r r rounds]
      by (simp add: mark_row_rank_key)
    ultimately show ?thesis using keep [OF og(1)] by blast
  qed
qed

lemma references_outrank_rounds:
  assumes "funding_rounds s' = funding_rounds s"
  shows "references_outrank s' rounds cid = references_outrank s rounds cid"
  by (simp add: references_outrank_def assms)

lemma run_references_outrank:
  assumes d: "distinct (map id_round rows0)"
    and sub: "\<forall>r \<in> set rounds. r \<in> set rows0 \<and> company_id r = cid"
    and dr: "distinct (map id_round rounds)"
    and k: "map (\<lambda>r. (company_id r, rank_key r)) (funding_rounds s)
      = map (\<lambda>r. (company_id r, rank_key r)) rows0"
    and ref: "references_outrank s rounds cid"
  shows "references_outrank (fst (foldl (merge_step self) (s, n) (pairs_in_order rounds)))
    rounds cid"
proof -
  let ?Q = "\<lambda>s' :: session. map (\<lambda>r. (company_id r, rank_key r)) (funding_rounds s')
        = map (\<lambda>r. (company_id r, rank_key r)) rows0
      \<and> references_outrank s' rounds cid"
  have "?Q (fst (foldl (merge_step self) (s, n) (pairs_in_order rounds)))"
  proof (rule foldl_merge_step_invariant [where Q = ?Q])
    show "?Q s" using k ref by simp
  next
    fix s' a b
    assume q: "?Q s'" and p: "(a, b) \<in> set (pairs_in_order rounds)"
    have m: "a \<in> set rounds" "b \<in> set rounds" using pairs_in_order_members [OF p] by simp_all
    from pairs_in_order_position [OF p dr]
    have "outranks rounds (spec_survivor a b) (spec_demoted a b)" by (rule survivor_outranks)
    moreover have "spec_survivor a b \<in> set rows0" "spec_demoted a b \<in> set rows0"
      "company_id (spec_survivor a b) = cid"
      using m sub by (simp_all add: spec_survivor_def spec_demoted_def)
    ultimately have "references_outrank
        (mark_as_duplicate s' (id_round (spec_demoted a b)) (id_round (spec_survivor a b)))
        rounds cid"
      using references_outrank_mark [OF conjunct2 [OF q] conjunct1 [OF q] d] by blast
    with q show "?Q (mark_as_duplicate s' (id_round (spec_demoted a b))
        (id_round (spec_survivor a b)))"
      by (simp add: mark_as_duplicate_rank_keys)
  qed
  then show ?thesis by simp
qed

lemma find_by_id:
  assumes "distinct (map id_round rows)" and "orig \<in> set rows"
  shows "find (\<lambda>x. id_round x = id_round orig) rows = Some orig"
  using assms by (induction rows) auto

text \<open>
  When every duplicate refers to a record that comes before it in a strict order, the
  references lead from every record to a non-duplicate in fewer steps than there are rows.
\<close>

lemma follow_ends:
  assumes d: "distinct (map id_round rows)"
    and ref: "\<forall>r \<in> set rows. company_id r = cid \<and> is_duplicate r \<longrightarrow>
        (\<exists>orig \<in> set rows. duplicate_of_id r = Some (id_round orig) \<and> company_id orig = cid
           \<and> outranks rounds orig r)"
  shows "r \<in> set rows \<Longrightarrow> company_id r = cid
    \<Longrightarrow> card {x \<in> set rows. outranks rounds x r} < n
    \<Longrightarrow> \<exists>t \<in> set rows. follow n rows r = Some t \<and> company_id t = cid \<and> \<not> is_duplicate t"
proof (induction n arbitrary: r)
  case 0
  then show ?case by simp
next
  case (Suc n)
  show ?case
  proof (cases "is_duplicate r")
    case False
    with Suc.prems show ?thesis by auto
  next
    case True
    with Suc.prems ref obtain orig where og: "orig \<in> set rows"
      "duplicate_of_id r = Some (id_round orig)" "company_id orig = cid"
      "outranks rounds orig r" by blast
    have "{x \<in> set rows. outranks rounds x orig} \<subseteq> {x \<in> set rows. outranks rounds x r}"
      using og(4) outranks_transitive by blast
    moreover have "orig \<in> {x \<in> set rows. outranks rounds x r}" using og(1,4) by simp
    moreover have "orig \<notin> {x \<in> set rows. outranks rounds x orig}"
      by (simp add: outranks_irreflexive)
    ultimately have "{x \<in> set rows. outranks rounds x orig}
        \<subset> {x \<in> set rows. outranks rounds x r}" by blast
    then have "card {x \<in> set rows. outranks rounds x orig}
        < card {x \<in> set rows. outranks rounds x r}"
      by (intro psubset_card_mono) simp_all
    with Suc.prems(3) have "card {x \<in> set rows. outranks rounds x orig} < n" by simp
    from Suc.IH [OF og(1) og(3) this]
    obtain t where t: "t \<in> set rows" "follow n rows orig = Some t" "company_id t = cid"
      "\<not> is_duplicate t" by blast
    have "follow (Suc n) rows r = follow n rows orig"
      using True og(2) find_by_id [OF d og(1)] by simp
    with t show ?thesis by auto
  qed
qed

lemma references_outrank_chains_end:
  assumes d: "distinct (map id_round (funding_rounds s))"
    and ref: "references_outrank s rounds cid"
  shows "chains_end s cid"
  unfolding chains_end_def original_of_def
proof (intro ballI impI)
  fix r
  assume r: "r \<in> set (funding_rounds s)" and c: "company_id r = cid"
  have "{x \<in> set (funding_rounds s). outranks rounds x r} \<subset> set (funding_rounds s)"
    using r outranks_irreflexive by blast
  then have "card {x \<in> set (funding_rounds s). outranks rounds x r}
      < card (set (funding_rounds s))"
    by (intro psubset_card_mono) simp_all
  also have "\<dots> \<le> length (funding_rounds s)" by (rule card_length)
  finally have n: "card {x \<in> set (funding_rounds s). outranks rounds x r}
      < length (funding_rounds s)" .
  from ref have "\<forall>r \<in> set (funding_rounds s). company_id r = cid \<and> is_duplicate r \<longrightarrow>
        (\<exists>orig \<in> set (funding_rounds s). duplicate_of_id r = Some (id_round orig)
           \<and> company_id orig = cid \<and> outranks rounds orig r)"
    by (simp add: references_outrank_def)
  from follow_ends [OF d this r c n]
  show "\<exists>t \<in> set (funding_rounds s).
      follow (length (funding_rounds s)) (funding_rounds s) r = Some t
      \<and> company_id t = cid \<and> \<not> is_duplicate t" .
qed

lemma chains_end_rounds:
  assumes "funding_rounds s' = funding_rounds s"
  shows "chains_end s' cid = chains_end s cid"
  by (simp add: chains_end_def original_of_def assms)

lemma deduplicate_company_ids:
  "map id_round (funding_rounds (fst (deduplicate_company self now s company)))
     = map id_round (funding_rounds s)"
proof (cases rule: deduplicate_company_cases [of s company self now])
  case (skipped st)
  then show ?thesis by simp
next
  case (short s1)
  then show ?thesis by (simp add: update_stage4_status_rounds)
next
  case (compared s1 s2 found)
  let ?Q = "\<lambda>s' :: session. map id_round (funding_rounds s') = map id_round (funding_rounds s)"
  have "?Q (fst (outer_loop self (non_duplicate_rounds s (id_company company)) (s1, 0)))"
  proof (rule outer_loop_invariant [where Q = ?Q])
    show "?Q s1" using compared(1) by simp
  next
    fix s' a b
    assume "?Q s'"
    then show "?Q (mark_as_duplicate s' (id_round a) (id_round b))
      \<and> ?Q (mark_as_duplicate s' (id_round b) (id_round a))"
      by (simp add: mark_as_duplicate_def mark_row_keys comp_def)
  qed
  with compared(5) have "?Q s2" by simp
  with compared(6) show ?thesis by (simp add: update_stage4_status_rounds)
qed

text \<open>
  Claim C4, as amended. After a run of \<^verbatim>\<open>deduplicate_company\<close> on a company whose records all
  started with \<open>is_duplicate = false\<close>, in a store whose round ids are distinct, every record
  of the company with \<open>is_duplicate = true\<close> has its \<open>duplicate_of_id\<close> pointing to a record of
  the same company that outranks it in the order of the merge rule (tier HIGH first, then
  the higher completeness score, then the earlier position in load order). The record
  pointed to may itself be a duplicate, so the reference graph can be deeper than one, but
  following the references from any record of the company ends at a record of the same
  company whose \<open>is_duplicate\<close> is false.
\<close>

theorem duplicate_chains_end_at_survivor:
  assumes d: "distinct (map id_round (funding_rounds s))"
    and fresh: "\<forall>r \<in> set (funding_rounds s). company_id r = id_company company
      \<longrightarrow> \<not> is_duplicate r"
  shows "references_outrank (fst (deduplicate_company self now s company))
      (non_duplicate_rounds s (id_company company)) (id_company company)
    \<and> chains_end (fst (deduplicate_company self now s company)) (id_company company)"
proof -
  let ?cid = "id_company company"
  let ?rounds = "non_duplicate_rounds s ?cid"
  let ?s' = "fst (deduplicate_company self now s company)"
  have start: "references_outrank s ?rounds ?cid"
    using fresh by (auto simp: references_outrank_def)
  have "references_outrank ?s' ?rounds ?cid"
  proof (cases rule: deduplicate_company_cases [of s company self now])
    case (skipped st)
    with start show ?thesis by simp
  next
    case (short s1)
    with start show ?thesis
      by (simp add: references_outrank_rounds [OF update_stage4_status_rounds(1)]
          references_outrank_rounds [OF short(1)])
  next
    case (compared s1 s2 found)
    have dr: "distinct (map id_round ?rounds)"
      using d by (simp add: non_duplicate_rounds_def distinct_map_filter)
    have sub: "\<forall>r \<in> set ?rounds. r \<in> set (funding_rounds s) \<and> company_id r = ?cid"
      by (simp add: non_duplicate_rounds_def)
    have k: "map (\<lambda>r. (company_id r, rank_key r)) (funding_rounds s1)
        = map (\<lambda>r. (company_id r, rank_key r)) (funding_rounds s)"
      using compared(1) by simp
    have r1: "references_outrank s1 ?rounds ?cid"
      using start by (simp only: references_outrank_rounds [OF compared(1)])
    from compared(5) have f: "foldl (merge_step self) (s1, 0) (pairs_in_order ?rounds)
        = (s2, found)"
      by (simp only: outer_loop_foldl foldl_merge_step)
    from run_references_outrank [OF d sub dr k r1, of self 0] f
    have "references_outrank s2 ?rounds ?cid" by simp
    with compared(6) show ?thesis
      by (simp add: references_outrank_rounds [OF update_stage4_status_rounds(1)])
  qed
  moreover have "distinct (map id_round (funding_rounds ?s'))"
    using d by (simp only: deduplicate_company_ids)
  ultimately show ?thesis using references_outrank_chains_end by blast
qed

theorem duplicate_chains_end_at_survivor_witness:
  "map (\<lambda>r. map_option id_round
          (original_of (fst (deduplicate_company (init default_config) 0 gamma_chain
             gamma_company)) r))
      (funding_rounds (fst (deduplicate_company (init default_config) 0 gamma_chain
         gamma_company)))
     = [Some 12, Some 12, Some 12]
   \<and> chains_end (fst (deduplicate_company (init default_config) 0 gamma_chain gamma_company)) 7
   \<and> references_outrank (fst (deduplicate_company (init default_config) 0 gamma_chain
        gamma_company)) (funding_rounds gamma_chain) 7"
proof -
  have d: "distinct (map id_round (funding_rounds gamma_chain))"
    by (simp add: gamma_chain_def gamma_store_def gamma_round_def)
  have f: "\<forall>r \<in> set (funding_rounds gamma_chain). company_id r = id_company gamma_company
      \<longrightarrow> \<not> is_duplicate r"
    by (simp add: gamma_chain_def gamma_store_def gamma_round_def)
  have nd: "non_duplicate_rounds gamma_chain 7 = funding_rounds gamma_chain"
    by (simp add: non_duplicate_rounds_def gamma_chain_def gamma_store_def gamma_round_def)
  have v: "map (\<lambda>r. map_option id_round
          (original_of (fst (deduplicate_company (init default_config) 0 gamma_chain
             gamma_company)) r))
      (funding_rounds (fst (deduplicate_company (init default_config) 0 gamma_chain
         gamma_company)))
     = [Some 12, Some 12, Some 12]" by code_simp
  from duplicate_chains_end_at_survivor [OF d f, of "init default_config" 0] v
  show ?thesis by (simp add: nd gamma_company_def)
qed

theorem chained_duplicates_counterexample:
  "map is_duplicate (funding_rounds gamma_chain) = [False, False, False]
   \<and> map (\<lambda>r. (id_round r, is_duplicate r, duplicate_of_id r))
       (funding_rounds (fst (deduplicate_company (init default_config) 0 gamma_chain
          gamma_company)))
     = [(11, True, Some 13), (12, False, None), (13, True, Some 12)]
   \<and> \<not> references_depth_one
         (fst (deduplicate_company (init default_config) 0 gamma_chain gamma_company)) 7"
  by code_simp

section \<open>A cluster of three mutual duplicates\<close>

lemma non_duplicate_rounds_mark:
  "non_duplicate_rounds (mark_as_duplicate s l w) cid
     = filter (\<lambda>r. id_round r \<noteq> l) (non_duplicate_rounds s cid)"
proof -
  have "filter (\<lambda>r. company_id r = cid \<and> is_duplicate r = False) (map (mark_row l w) rows)
      = filter (\<lambda>r. id_round r \<noteq> l)
          (filter (\<lambda>r. company_id r = cid \<and> is_duplicate r = False) rows)" for rows
    by (induction rows) (simp_all add: mark_row_def)
  then show ?thesis by (simp add: non_duplicate_rounds_def mark_as_duplicate_def)
qed

lemma non_duplicate_rounds_cong:
  assumes "funding_rounds s' = funding_rounds s"
  shows "non_duplicate_rounds s' cid = non_duplicate_rounds s cid"
  by (simp add: non_duplicate_rounds_def assms)

lemma equal_confidence_survivor:
  assumes "confidence_score a = confidence_score b"
  shows "first_survives a b = (completeness b \<le> completeness a)"
  using assms by (simp add: first_survives_def exactly_one_high_def)

text \<open>
  Marking a round raises the number of rows with \<open>is_duplicate = true\<close> by one when the
  round was not a duplicate before, and leaves it unchanged when it was.
\<close>

lemma duplicates_found_mark_rows:
  assumes "distinct (map id_round rows)"
  shows "length (filter (\<lambda>r. is_duplicate r = True) (map (mark_row l w) rows))
    = length (filter (\<lambda>r. is_duplicate r = True) rows)
      + (if \<exists>r \<in> set rows. id_round r = l \<and> \<not> is_duplicate r then 1 else 0)"
  using assms
proof (induction rows)
  case Nil
  show ?case by simp
next
  case (Cons r rows)
  show ?case
  proof (cases "id_round r = l")
    case True
    from Cons.prems have "id_round r \<notin> set (map id_round rows)" by simp
    with True have no: "\<forall>x \<in> set rows. id_round x \<noteq> l"
      by (metis image_eqI set_map)
    then have "map (mark_row l w) rows = rows"
      by (simp add: mark_row_def map_idI)
    then have m: "map (mark_row l w) (r # rows) = mark_row l w r # rows"
      by (simp only: list.simps(9))
    have "is_duplicate (mark_row l w r)" using True by (simp add: mark_row_def)
    then show ?thesis unfolding m using True no by auto
  next
    case False
    with Cons show ?thesis by (simp add: mark_row_def)
  qed
qed

lemma duplicates_found_mark:
  assumes "distinct (map id_round (funding_rounds s))"
  shows "duplicates_found_statistic (mark_as_duplicate s l w)
    = duplicates_found_statistic s
      + (if \<exists>r \<in> set (funding_rounds s). id_round r = l \<and> \<not> is_duplicate r then 1 else 0)"
  using duplicates_found_mark_rows [OF assms]
  by (simp add: duplicates_found_statistic_def mark_as_duplicate_def)

lemma mark_as_duplicate_distinct:
  "distinct (map id_round (funding_rounds (mark_as_duplicate s l w)))
     = distinct (map id_round (funding_rounds s))"
  by (simp add: mark_as_duplicate_def mark_row_keys comp_def)

lemma duplicates_found_cong:
  assumes "funding_rounds s' = funding_rounds s"
  shows "duplicates_found_statistic s' = duplicates_found_statistic s"
  by (simp add: duplicates_found_statistic_def assms)

text \<open>
  Claim C5. For a company whose loaded records are three mutually duplicate records of equal
  confidence tier with completeness scores 2, 3 and 1 in load order (round ids being
  distinct and the stage not yet marked complete), \<^verbatim>\<open>deduplicate_company\<close> leaves exactly one
  of them non-duplicate, the one of score 3, and demotes the two others, so that the number
  of rows with \<open>is_duplicate = true\<close> grows by 2; but the count it returns is 3, not the 2 of
  the claim: the third record is demoted twice and counted both times.
\<close>

theorem three_way_cluster:
  assumes d: "distinct (map id_round (funding_rounds s))"
    and nm: "\<forall>st. processing_status s (id_company company) = Some st \<longrightarrow> \<not> stage4_merged st"
    and nd: "non_duplicate_rounds s (id_company company) = [a, b, c]"
    and dup: "are_duplicates self a b" "are_duplicates self a c" "are_duplicates self b c"
    and conf: "confidence_score a = confidence_score b" "confidence_score b = confidence_score c"
    and score: "completeness a = 2" "completeness b = 3" "completeness c = 1"
  shows "snd (deduplicate_company self now s company) = 3
    \<and> non_duplicate_rounds (fst (deduplicate_company self now s company)) (id_company company)
        = [b]
    \<and> completeness b = 3
    \<and> duplicates_found_statistic (fst (deduplicate_company self now s company))
        = duplicates_found_statistic s + 2"
proof -
  let ?cid = "id_company company"
  have "distinct (map id_round (non_duplicate_rounds s ?cid))"
    using d by (simp add: non_duplicate_rounds_def distinct_map_filter)
  then have ids: "id_round a \<noteq> id_round b" "id_round b \<noteq> id_round c"
    "id_round a \<noteq> id_round c" by (simp_all add: nd)
  have ab: "\<not> first_survives a b" and ac: "first_survives a c" and bc: "first_survives b c"
    using conf score by (simp_all add: equal_confidence_survivor)
  have mem: "set [a, b, c] \<subseteq> set (funding_rounds s)"
    "\<not> is_duplicate a" "\<not> is_duplicate c"
  proof -
    have "set (non_duplicate_rounds s ?cid)
        \<subseteq> {r \<in> set (funding_rounds s). \<not> is_duplicate r}"
      by (auto simp: non_duplicate_rounds_def)
    then have "set [a, b, c] \<subseteq> {r \<in> set (funding_rounds s). \<not> is_duplicate r}"
      by (simp only: nd)
    then show "set [a, b, c] \<subseteq> set (funding_rounds s)" "\<not> is_duplicate a"
      "\<not> is_duplicate c" by auto
  qed
  show ?thesis
  proof (cases rule: deduplicate_company_cases [of s company self now])
    case (skipped st)
    with nm show ?thesis by simp
  next
    case (short s1)
    with nd show ?thesis by simp
  next
    case (compared s1 s2 found)
    let ?m1 = "mark_as_duplicate s1 (id_round a) (id_round b)"
    let ?m2 = "mark_as_duplicate ?m1 (id_round c) (id_round a)"
    let ?m3 = "mark_as_duplicate ?m2 (id_round c) (id_round b)"
    have "outer_loop self [a, b, c] (s1, 0) = (?m3, 3)"
      using dup ab ac bc
      by (simp add: compare_pair_eq spec_demoted_def spec_survivor_def)
    with compared(5) nd have r: "s2 = ?m3" "found = 3" by simp_all
    have "non_duplicate_rounds s1 ?cid = [a, b, c]"
      using nd by (simp only: non_duplicate_rounds_cong [OF compared(1)])
    then have "non_duplicate_rounds ?m3 ?cid = [b]"
      using ids by (simp add: non_duplicate_rounds_mark)
    then have survivors: "non_duplicate_rounds (update_stage4_status s2 ?cid
        (length (non_duplicate_rounds s2 ?cid)) True now) ?cid = [b]"
      using r(1) by (simp only: non_duplicate_rounds_cong [OF update_stage4_status_rounds(1)])
    have d1: "distinct (map id_round (funding_rounds s1))" using d compared(1) by simp
    have a1: "\<exists>r \<in> set (funding_rounds s1). id_round r = id_round a \<and> \<not> is_duplicate r"
      using mem compared(1) by auto
    have n1: "duplicates_found_statistic ?m1 = duplicates_found_statistic s + 1"
      using duplicates_found_mark [OF d1, of "id_round a" "id_round b"] a1
      by (simp add: duplicates_found_cong [OF compared(1)])
    have dm1: "distinct (map id_round (funding_rounds ?m1))"
      using d1 by (simp only: mark_as_duplicate_distinct)
    have "mark_row (id_round a) (id_round b) c \<in> set (funding_rounds ?m1)"
      using mem(1) compared(1) by (simp add: mark_as_duplicate_def)
    then have "c \<in> set (funding_rounds ?m1)" using ids(3) by (simp add: mark_row_def)
    then have c1: "\<exists>r \<in> set (funding_rounds ?m1). id_round r = id_round c \<and> \<not> is_duplicate r"
      using mem(3) by blast
    have n2: "duplicates_found_statistic ?m2 = duplicates_found_statistic s + 2"
      using duplicates_found_mark [OF dm1, of "id_round c" "id_round a"] c1 n1
      by simp
    have dm2: "distinct (map id_round (funding_rounds ?m2))"
      using dm1 by (simp only: mark_as_duplicate_distinct)
    have c2: "\<not> (\<exists>r \<in> set (funding_rounds ?m2). id_round r = id_round c \<and> \<not> is_duplicate r)"
      by (auto simp: mark_as_duplicate_def [of ?m1] mark_row_def)
    have n3: "duplicates_found_statistic ?m3 = duplicates_found_statistic s + 2"
      using duplicates_found_mark [OF dm2, of "id_round c" "id_round b"] c2 n2
      by simp
    then have "duplicates_found_statistic (update_stage4_status s2 ?cid
        (length (non_duplicate_rounds s2 ?cid)) True now) = duplicates_found_statistic s + 2"
      using r(1) by (simp only: duplicates_found_cong [OF update_stage4_status_rounds(1)])
    with compared(6) r(2) score(2) survivors show ?thesis by simp
  qed
qed

theorem three_way_cluster_witness:
  "snd (deduplicate_company (init default_config) 0 gamma gamma_company) = 3
   \<and> map id_round (non_duplicate_rounds
        (fst (deduplicate_company (init default_config) 0 gamma gamma_company)) 7) = [12]
   \<and> duplicates_found_statistic gamma = 0
   \<and> duplicates_found_statistic
        (fst (deduplicate_company (init default_config) 0 gamma gamma_company)) = 2"
proof -
  let ?a = "gamma_round 11 (Some (Finite 3000000)) None None"
  let ?b = "gamma_round 12 (Some (Finite 3000000)) (Some (Finite 3750000)) None"
  let ?c = "gamma_round 13 None None None"
  have d: "distinct (map id_round (funding_rounds gamma))"
    by (simp add: gamma_def gamma_store_def gamma_round_def)
  have nm: "\<forall>st. processing_status gamma (id_company gamma_company) = Some st
      \<longrightarrow> \<not> stage4_merged st"
    by (simp add: gamma_def gamma_store_def)
  have nd: "non_duplicate_rounds gamma (id_company gamma_company) = [?a, ?b, ?c]"
    by (simp add: non_duplicate_rounds_def gamma_def gamma_store_def gamma_round_def
        gamma_company_def)
  have dup: "are_duplicates (init default_config) ?a ?b"
    "are_duplicates (init default_config) ?a ?c" "are_duplicates (init default_config) ?b ?c"
    by code_simp+
  have conf: "confidence_score ?a = confidence_score ?b"
    "confidence_score ?b = confidence_score ?c"
    by (simp_all add: gamma_round_def)
  have score: "completeness ?a = 2" "completeness ?b = 3" "completeness ?c = 1"
    by code_simp+
  have z: "duplicates_found_statistic gamma = 0"
    by (simp add: duplicates_found_statistic_def gamma_def gamma_store_def gamma_round_def)
  from three_way_cluster [OF d nm nd dup conf score, of 0] z
  show ?thesis by (simp add: gamma_company_def gamma_round_def)
qed

section \<open>The statistics of deduplicate\_all\<close>

lemma deduplicate_company_tables:
  "companies (fst (deduplicate_company self now s company)) = companies s
   \<and> length (funding_rounds (fst (deduplicate_company self now s company)))
       = length (funding_rounds s)"
proof (cases rule: deduplicate_company_cases [of s company self now])
  case (skipped st)
  then show ?thesis by simp
next
  case (short s1)
  then show ?thesis by (simp add: update_stage4_status_rounds)
next
  case (compared s1 s2 found)
  let ?Q = "\<lambda>s' :: session. companies s' = companies s
      \<and> length (funding_rounds s') = length (funding_rounds s)"
  have "?Q (fst (outer_loop self (non_duplicate_rounds s (id_company company)) (s1, 0)))"
  proof (rule outer_loop_invariant [where Q = ?Q])
    show "?Q s1" using compared(1,2) by simp
  next
    fix s' a b
    assume "?Q s'"
    then show "?Q (mark_as_duplicate s' (id_round a) (id_round b))
      \<and> ?Q (mark_as_duplicate s' (id_round b) (id_round a))"
      by (simp add: mark_as_duplicate_other_tables)
  qed
  with compared(5) have "?Q s2" by simp
  with compared(6) show ?thesis by (simp add: update_stage4_status_rounds)
qed

lemma company_loop_result:
  assumes "\<forall>p \<in> set ics. \<exists>c \<in> set (companies s). id_company c = snd p"
  shows "\<exists>s'. company_loop self clock ics (s, tot)
        = Inr (s', tot + sum_list (per_company_counts self clock ics s))
      \<and> companies s' = companies s
      \<and> length (funding_rounds s') = length (funding_rounds s)
      \<and> length (per_company_counts self clock ics s) = length ics"
  using assms
proof (induction ics arbitrary: s tot)
  case Nil
  show ?case by simp
next
  case (Cons p ics)
  obtain i cid where p: "p = (i, cid)" by (cases p)
  from Cons.prems p have "\<exists>c \<in> set (companies s). id_company c = cid" by simp
  then have "find (\<lambda>c. id_company c = cid) (companies s) \<noteq> None"
    by (auto simp: find_None_iff)
  then obtain company where f: "find (\<lambda>c. id_company c = cid) (companies s) = Some company"
    by blast
  obtain s1 n where dc: "deduplicate_company self (clock i) s company = (s1, n)"
    by (cases "deduplicate_company self (clock i) s company")
  from deduplicate_company_tables [of self "clock i" s company] dc
  have t: "companies s1 = companies s" "length (funding_rounds s1) = length (funding_rounds s)"
    by simp_all
  from Cons.prems t(1) have "\<forall>q \<in> set ics. \<exists>c \<in> set (companies s1). id_company c = snd q"
    by simp
  from Cons.IH [OF this, of "tot + n"]
  obtain s' where s': "company_loop self clock ics (s1, tot + n)
        = Inr (s', tot + n + sum_list (per_company_counts self clock ics s1))"
      "companies s' = companies s1" "length (funding_rounds s') = length (funding_rounds s1)"
      "length (per_company_counts self clock ics s1) = length ics" by blast
  have "company_loop self clock (p # ics) (s, tot)
        = Inr (s', tot + sum_list (per_company_counts self clock (p # ics) s))"
    using p f dc s'(1) by simp
  moreover have "length (per_company_counts self clock (p # ics) s) = length (p # ics)"
    using p f dc s'(4) by simp
  ultimately show ?case using s'(2,3) t by simp
qed

lemma foreign_keys_numbered:
  assumes "\<forall>r \<in> set (funding_rounds s). \<exists>c \<in> set (companies s). id_company c = company_id r"
  shows "\<forall>p \<in> set (numbered_company_ids s). \<exists>c \<in> set (companies s). id_company c = snd p"
proof
  fix p
  assume "p \<in> set (numbered_company_ids s)"
  then have "snd p \<in> set (distinct_company_ids s)"
    unfolding numbered_company_ids_def by (metis set_zip_rightD prod.collapse)
  then obtain r where r: "r \<in> set (funding_rounds s)" "company_id r = snd p"
    by (auto simp: distinct_company_ids_def)
  from assms r(1) have "\<exists>c \<in> set (companies s). id_company c = company_id r" by blast
  then show "\<exists>c \<in> set (companies s). id_company c = snd p" by (simp only: r(2))
qed

lemma deduplicate_all_result:
  assumes "company_loop self clock (numbered_company_ids s) (s, 0) = Inr (s', tot)"
  shows "deduplicate_all self clock s =
     Inr (s',
       \<lparr> total_companies = length (distinct_company_ids s),
         total_rounds = length (funding_rounds s'),
         unique_rounds = length (filter (\<lambda>r. is_duplicate r = False) (funding_rounds s')),
         duplicates_removed = tot,
         deduplication_rate =
           (if length (funding_rounds s') > 0
            then float_mul (int_true_div tot (length (funding_rounds s'))) (Finite 100)
            else Finite 0) \<rparr>)"
  using assms by (simp add: deduplicate_all_def numbered_company_ids_def Let_def)

text \<open>
  Claim C6, as amended. When every funding round's company exists, \<^verbatim>\<open>deduplicate_all\<close>
  returns statistics in which \<open>total_companies\<close> is the number of distinct companies owning
  a round, \<open>total_rounds\<close> counts all rounds, demoted ones included, \<open>unique_rounds\<close>
  counts the rounds with \<open>is_duplicate = false\<close>, \<open>duplicates_removed\<close> is the sum of the
  counts returned for the companies, and \<open>deduplication_rate\<close> is the percentage
  \<open>duplicates_removed / total_rounds * 100\<close> computed in Python floats, zero when there is
  no round.
\<close>

theorem deduplicate_all_statistics:
  assumes "\<forall>r \<in> set (funding_rounds s). \<exists>c \<in> set (companies s). id_company c = company_id r"
  shows "\<exists>s' st. deduplicate_all self clock s = Inr (s', st)
    \<and> total_companies st = card (company_id ` set (funding_rounds s))
    \<and> total_rounds st = length (funding_rounds s')
    \<and> total_rounds st = length (funding_rounds s)
    \<and> unique_rounds st = length (filter (\<lambda>r. \<not> is_duplicate r) (funding_rounds s'))
    \<and> duplicates_removed st
        = sum_list (per_company_counts self clock (numbered_company_ids s) s)
    \<and> length (per_company_counts self clock (numbered_company_ids s) s) = total_companies st
    \<and> deduplication_rate st
        = (if total_rounds st = 0 then Finite 0
           else float_mul (int_true_div (duplicates_removed st) (total_rounds st))
                  (Finite 100))"
proof -
  let ?counts = "per_company_counts self clock (numbered_company_ids s) s"
  from company_loop_result [OF foreign_keys_numbered [OF assms], of self clock 0]
  obtain s' where l: "company_loop self clock (numbered_company_ids s) (s, 0)
        = Inr (s', 0 + sum_list ?counts)"
      "length (funding_rounds s') = length (funding_rounds s)"
      "length ?counts = length (numbered_company_ids s)" by blast
  then have "company_loop self clock (numbered_company_ids s) (s, 0)
        = Inr (s', sum_list ?counts)" by simp
  note r = deduplicate_all_result [OF this]
  have c: "length (distinct_company_ids s) = card (company_id ` set (funding_rounds s))"
    by (simp add: distinct_company_ids_def length_remdups_card_conv)
  have n: "length (numbered_company_ids s) = length (distinct_company_ids s)"
    by (simp only: numbered_company_ids_def length_zip length_upt)
  show ?thesis
    by (intro exI [of _ s'] exI conjI, rule r) (simp_all add: c n l(2,3))
qed

theorem deduplicate_all_statistics_witness:
  "map_sum id snd (deduplicate_all (init default_config) clock0 acme)
     = Inr \<lparr> total_companies = 1, total_rounds = 2, unique_rounds = 1,
             duplicates_removed = 1, deduplication_rate = Finite 50 \<rparr>
   \<and> card (company_id ` set (funding_rounds acme)) = 1"
proof -
  have fk: "\<forall>r \<in> set (funding_rounds acme). \<exists>c \<in> set (companies acme).
      id_company c = company_id r"
    by (simp add: acme_def acme_round1_def acme_round2_def acme_company_def)
  have v: "map_sum id snd (deduplicate_all (init default_config) clock0 acme)
     = Inr \<lparr> total_companies = 1, total_rounds = 2, unique_rounds = 1,
             duplicates_removed = 1, deduplication_rate = Finite 50 \<rparr>" by code_simp
  from deduplicate_all_statistics [OF fk, of "init default_config" clock0]
  obtain s' st where "deduplicate_all (init default_config) clock0 acme = Inr (s', st)"
    "total_companies st = card (company_id ` set (funding_rounds acme))" by blast
  with v have "card (company_id ` set (funding_rounds acme)) = 1" by auto
  with v show ?thesis by (intro conjI)
qed

theorem deduplication_rate_counterexample:
  "map_sum id (\<lambda>p. deduplication_rate (snd p))
      (deduplicate_all (init default_config) clock0 acme) = Inr (Finite 50)
   \<and> map_sum id (\<lambda>p. int_true_div (duplicates_removed (snd p)) (total_rounds (snd p)))
      (deduplicate_all (init default_config) clock0 acme) = Inr (Finite (1 / 2))"
  by code_simp

end
